theory Spec2Isabelle
  imports Main
begin

section \<open>Strings of the host language\<close>

text \<open>
  \<^verbatim>\<open>src/goCheck.ts\<close> is TypeScript: its strings are sequences of UTF-16 code units. A
  string is modelled as the list of its code unit values, so that the character classes
  of the regular expression (\<^verbatim>\<open>\w\<close>, \<^verbatim>\<open>\d\<close>, \<^verbatim>\<open>.\<close>) are stated on the values the
  engine compares. \<open>js\<close> turns a literal of the theory into such a string.
\<close>

type_synonym jsstring = "nat list"

definition js :: "string \<Rightarrow> jsstring" where
  "js s = map of_char s"

abbreviation (input) TAB :: nat where "TAB \<equiv> 9"
abbreviation (input) NL :: nat where "NL \<equiv> 10"
abbreviation (input) CR :: nat where "CR \<equiv> 13"
abbreviation (input) SPACE :: nat where "SPACE \<equiv> 32"
abbreviation (input) DQUOTE :: nat where "DQUOTE \<equiv> 34"
abbreviation (input) QUOTE :: nat where "QUOTE \<equiv> 39"
abbreviation (input) DOT :: nat where "DOT \<equiv> 46"
abbreviation (input) SLASH :: nat where "SLASH \<equiv> 47"
abbreviation (input) COLON :: nat where "COLON \<equiv> 58"
abbreviation (input) UNDERSCORE :: nat where "UNDERSCORE \<equiv> 95"

text \<open>\<^verbatim>\<open>\d\<close> is \<^verbatim>\<open>[0-9]\<close>, \<^verbatim>\<open>\w\<close> is \<^verbatim>\<open>[A-Za-z0-9_]\<close>, the class of the first group is
  \<^verbatim>\<open>[\w.\/]\<close>, and \<^verbatim>\<open>.\<close> is every code unit but the four line terminators
  (LF, CR, U+2028, U+2029).\<close>

definition is_digit :: "nat \<Rightarrow> bool" where
  "is_digit c \<longleftrightarrow> 48 \<le> c \<and> c \<le> 57"

definition is_word :: "nat \<Rightarrow> bool" where
  "is_word c \<longleftrightarrow> (97 \<le> c \<and> c \<le> 122) \<or> (65 \<le> c \<and> c \<le> 90) \<or> is_digit c \<or> c = UNDERSCORE"

definition is_path_char :: "nat \<Rightarrow> bool" where
  "is_path_char c \<longleftrightarrow> is_word c \<or> c = DOT \<or> c = SLASH"

definition is_colon :: "nat \<Rightarrow> bool" where
  "is_colon c \<longleftrightarrow> c = COLON"

definition is_line_terminator :: "nat \<Rightarrow> bool" where
  "is_line_terminator c \<longleftrightarrow> c = NL \<or> c = CR \<or> c = 8232 \<or> c = 8233"

definition is_dot :: "nat \<Rightarrow> bool" where
  "is_dot c \<longleftrightarrow> \<not> is_line_terminator c"

text \<open>\<^verbatim>\<open>s.split('\n')\<close>: the pieces between the line feeds; a string with n line feeds has
  n + 1 pieces, the empty string has the one piece \<^verbatim>\<open>''\<close>.\<close>

fun split_on :: "nat \<Rightarrow> jsstring \<Rightarrow> jsstring list" where
  "split_on d [] = [[]]"
| "split_on d (c # cs) =
     (if c = d then [] # split_on d cs
      else (case split_on d cs of [] \<Rightarrow> [[c]] | l # ls \<Rightarrow> (c # l) # ls))"

text \<open>\<^verbatim>\<open>parts.join(sep)\<close>.\<close>

fun join :: "jsstring \<Rightarrow> jsstring list \<Rightarrow> jsstring" where
  "join sep [] = []"
| "join sep [p] = p"
| "join sep (p # q # ps) = p @ sep @ join sep (q # ps)"

text \<open>The unary plus of lines 46 and 47 is applied to a string of decimal digits only (the
  groups \<^verbatim>\<open>(\d+)\<close> and \<^verbatim>\<open>(\d?)\<close>); the empty string gives 0. \<open>to_number\<close> is the integer
  the digits denote. The source holds a double: it is that integer as long as the integer
  is below \<open>2^53\<close>, which the number of every string of at most 15 digits is
  (\<open>to_number_exact_range\<close> below); beyond that the source rounds to the nearest double
  (\<^verbatim>\<open>+'9007199254740993'\<close> is 9007199254740992) and \<open>to_number\<close> does not. The column has at
  most one digit. The claims below speak of the line of a diagnostic for line numbers
  of at most 15 digits.\<close>

definition to_number :: "jsstring \<Rightarrow> nat" where
  "to_number s = foldl (\<lambda>n c. 10 * n + (c - 48)) 0 s"

text \<open>A number printed in a template string (line 52): its decimal digits. This is what
  the source prints for an integer below \<open>2^53\<close>; above that the source prints the double it
  holds (the shortest digits that denote it, then zeros), and from \<open>10^21\<close> on it prints an
  exponent. It occurs in the text written to the output channel only.\<close>

fun show_number :: "nat \<Rightarrow> jsstring" where
  "show_number n = (if n < 10 then [48 + n] else show_number (n div 10) @ [48 + n mod 10])"

declare show_number.simps [simp del]

section \<open>The regular expression of line 43\<close>

text \<open>
  \<^verbatim>\<open>/^([\w.\/]*):(\d+):(\d?):*(\w*):* (.*)$/.exec(line)\<close>

  The pattern is a sequence of items, each a literal code unit or a quantified class,
  some of them capturing groups. It is anchored at both ends and has no flag, so \<^verbatim>\<open>^\<close> is
  the start and \<^verbatim>\<open>$\<close> the end of the string.
\<close>

datatype atom = Star "nat \<Rightarrow> bool" | Plus "nat \<Rightarrow> bool" | Opt "nat \<Rightarrow> bool" | Lit nat

datatype item = Group atom | Plain atom

definition line_pattern :: "item list" where
  "line_pattern =
     [Group (Star is_path_char), Plain (Lit COLON),
      Group (Plus is_digit), Plain (Lit COLON),
      Group (Opt is_digit), Plain (Star is_colon),
      Group (Star is_word), Plain (Star is_colon),
      Plain (Lit SPACE), Group (Star is_dot)]"

text \<open>
  The engine backtracks: a greedy quantifier first takes as many code units as it can, and
  gives them back one at a time when the rest of the pattern fails. The ways an item can
  match at the head of a string are the splits of the string into what the item takes
  and what it leaves, in the order in which the engine tries them: longest first.
\<close>

definition star_splits :: "(nat \<Rightarrow> bool) \<Rightarrow> jsstring \<Rightarrow> (jsstring \<times> jsstring) list" where
  "star_splits p s = map (\<lambda>n. (take n s, drop n s)) (rev [0 ..< Suc (length (takeWhile p s))])"

fun splits :: "atom \<Rightarrow> jsstring \<Rightarrow> (jsstring \<times> jsstring) list" where
  "splits (Star p) s = star_splits p s"
| "splits (Plus p) s = filter (\<lambda>(a, r). a \<noteq> []) (star_splits p s)"
| "splits (Opt p) s =
     (case s of
        [] \<Rightarrow> [([], s)]
      | c # cs \<Rightarrow> if p c then [([c], cs), ([], s)] else [([], s)])"
| "splits (Lit c) s =
     (case s of
        [] \<Rightarrow> []
      | x # xs \<Rightarrow> if x = c then [([x], xs)] else [])"

text \<open>The first alternative, in the order of the list, with which the rest of the pattern
  matches.\<close>

fun first_match :: "('a \<Rightarrow> 'b option) \<Rightarrow> 'a list \<Rightarrow> 'b option" where
  "first_match k [] = None"
| "first_match k (x # xs) = (case k x of Some y \<Rightarrow> Some y | None \<Rightarrow> first_match k xs)"

text \<open>Matching a pattern against the whole of a string, with the groups captured so far
  (the last one first); the result is the list of the groups, in the order of the
  pattern.\<close>

primrec match_items :: "item list \<Rightarrow> jsstring \<Rightarrow> jsstring list \<Rightarrow> jsstring list option" where
  "match_items [] = (\<lambda>s caps. if s = [] then Some (rev caps) else None)"
| "match_items (i # items) =
     (\<lambda>s caps.
        (case i of
           Group a \<Rightarrow> first_match (\<lambda>(x, r). match_items items r (x # caps)) (splits a s)
         | Plain a \<Rightarrow> first_match (\<lambda>(x, r). match_items items r caps) (splits a s)))"

text \<open>The five groups of a match: file, lineStr, charStr, reSeverity, msg (line 45).\<close>

type_synonym groups = "jsstring \<times> jsstring \<times> jsstring \<times> jsstring \<times> jsstring"

definition re_exec :: "jsstring \<Rightarrow> groups option" where
  "re_exec l =
     (case match_items line_pattern l [] of
        Some [file0, lineStr, charStr, reSeverity, msg0] \<Rightarrow> Some (file0, lineStr, charStr, reSeverity, msg0)
      | _ \<Rightarrow> None)"

section \<open>Paths\<close>

text \<open>
  \<^verbatim>\<open>path\<close> is the path module of Node.js, which is not part of the repository. The
  model follows its POSIX variant (the extension is built on Linux and macOS).

  \<^verbatim>\<open>path.basename(p)\<close>: the last component of \<open>p\<close>, trailing slashes ignored.
\<close>

definition path_basename :: "jsstring \<Rightarrow> jsstring" where
  "path_basename p =
     rev (takeWhile (\<lambda>c. c \<noteq> SLASH) (dropWhile (\<lambda>c. c = SLASH) (rev p)))"

text \<open>The components of a path with \<^verbatim>\<open>.\<close> and empty components dropped and \<^verbatim>\<open>..\<close>
  resolved against the component before it (\<^verbatim>\<open>normalizeArray\<close> of the path module).\<close>

fun normalizeArray :: "jsstring list \<Rightarrow> bool \<Rightarrow> jsstring list \<Rightarrow> jsstring list" where
  "normalizeArray [] allowAboveRoot res = res"
| "normalizeArray (p # ps) allowAboveRoot res =
     (if p = [] \<or> p = [DOT] then normalizeArray ps allowAboveRoot res
      else if p = [DOT, DOT] then
        (if res \<noteq> [] \<and> last res \<noteq> [DOT, DOT] then normalizeArray ps allowAboveRoot (butlast res)
         else if allowAboveRoot then normalizeArray ps allowAboveRoot (res @ [p])
         else normalizeArray ps allowAboveRoot res)
      else normalizeArray ps allowAboveRoot (res @ [p]))"

text \<open>\<^verbatim>\<open>path.resolve(a, b)\<close>: the arguments are taken from the right, then the working
  directory of the process \<open>pcwd\<close>, until the path built so far is absolute; empty
  arguments are skipped.\<close>

fun resolve_args :: "jsstring list \<Rightarrow> jsstring \<times> bool \<Rightarrow> jsstring \<times> bool" where
  "resolve_args [] acc = acc"
| "resolve_args (p # ps) (resolvedPath, resolvedAbsolute) =
     (if resolvedAbsolute then (resolvedPath, resolvedAbsolute)
      else if p = [] then resolve_args ps (resolvedPath, resolvedAbsolute)
      else resolve_args ps (p @ [SLASH] @ resolvedPath, hd p = SLASH))"

definition path_resolve :: "jsstring \<Rightarrow> jsstring \<Rightarrow> jsstring \<Rightarrow> jsstring" where
  "path_resolve pcwd a b =
     (case resolve_args [b, a, pcwd] ([], False) of
        (resolvedPath, resolvedAbsolute) \<Rightarrow>
          (let r = (if resolvedAbsolute then [SLASH] else []) @
                   join [SLASH] (normalizeArray (split_on SLASH resolvedPath) (\<not> resolvedAbsolute) [])
           in if r = [] then [DOT] else r))"

definition is_absolute :: "jsstring \<Rightarrow> bool" where
  "is_absolute p \<longleftrightarrow> (case p of [] \<Rightarrow> False | c # cs \<Rightarrow> c = SLASH)"

section \<open>Diagnostics and the loop over the output lines\<close>

record ICheckResult =
  file' :: jsstring
  line :: nat
  char :: nat
  msg :: jsstring
  severity :: jsstring

text \<open>The body of the loop of lines 38 to 53 for one line \<open>l\<close>, on the diagnostics \<open>ret\<close>
  produced so far: the new value of \<open>ret\<close>, and the text the body appends to the output
  channel (line 52) when it produces a diagnostic. \<^verbatim>\<open>lines[i][0]\<close> of an empty line is
  \<^verbatim>\<open>undefined\<close>, which is not a tab.\<close>

definition starts_with_tab :: "jsstring \<Rightarrow> bool" where
  "starts_with_tab l \<longleftrightarrow> (case l of [] \<Rightarrow> False | c # cs \<Rightarrow> c = TAB)"

text \<open>Lines 45 to 51: the diagnostic built from the groups of a match.\<close>

definition to_diagnostic :: "jsstring \<Rightarrow> jsstring \<Rightarrow> jsstring \<Rightarrow> groups \<Rightarrow> ICheckResult" where
  "to_diagnostic pcwd cwd severity0 g =
     (case g of (file0, lineStr, charStr, reSeverity, msg0) \<Rightarrow>
        (let line1 = to_number lineStr;
             char0 = to_number charStr;
             char1 = (if char0 = 0 then 1 else char0);
             file1 = path_resolve pcwd cwd (path_basename file0);
             lineSeverity = (if reSeverity \<noteq> [] then reSeverity else severity0)
         in \<lparr>file' = file1, line = line1, char = char1, msg = msg0, severity = lineSeverity\<rparr>))"

text \<open>Line 52: the text written to the output channel for a new diagnostic.\<close>

definition log_text :: "ICheckResult \<Rightarrow> jsstring" where
  "log_text d =
     file' d @ [COLON] @ show_number (line d) @ [COLON] @ show_number (char d) @ [COLON, SPACE] @ msg d"

definition parse_line ::
  "jsstring \<Rightarrow> jsstring \<Rightarrow> jsstring \<Rightarrow> ICheckResult list \<Rightarrow> jsstring
     \<Rightarrow> ICheckResult list \<times> jsstring option" where
  "parse_line pcwd cwd severity0 ret l =
     (if starts_with_tab l \<and> ret \<noteq> [] then
        (butlast ret @ [(last ret)\<lparr>msg := msg (last ret) @ [NL] @ l\<rparr>], None)
      else
        (case re_exec l of
           None \<Rightarrow> (ret, None)
         | Some g \<Rightarrow>
             (let d = to_diagnostic pcwd cwd severity0 g
              in (ret @ [d], Some (log_text d)))))"

text \<open>The diagnostic parser as a function of the lines alone: the loop without its writes
  to the output channel.\<close>

definition parse_from ::
  "jsstring \<Rightarrow> jsstring \<Rightarrow> jsstring \<Rightarrow> ICheckResult list \<Rightarrow> jsstring list \<Rightarrow> ICheckResult list" where
  "parse_from pcwd cwd severity0 ret ls = foldl (\<lambda>r l. fst (parse_line pcwd cwd severity0 r l)) ret ls"

definition parse :: "jsstring \<Rightarrow> jsstring \<Rightarrow> jsstring \<Rightarrow> jsstring \<Rightarrow> ICheckResult list" where
  "parse pcwd cwd severity0 raw = parse_from pcwd cwd severity0 [] (split_on NL raw)"

section \<open>The editor host, processes and promises\<close>

text \<open>
  \<^verbatim>\<open>vscode.window.showInformationMessage\<close> (the notifier) and the output channel
  \<^verbatim>\<open>outputChannel\<close> (the log sink, with \<^verbatim>\<open>appendLine\<close> and \<^verbatim>\<open>clear\<close>) belong to the editor.
  They are the calls of \<^verbatim>\<open>runTool\<close> and \<^verbatim>\<open>check\<close> whose behaviour the source does not fix:
  a call changes the state \<open>'w\<close> of the editor, or throws.
\<close>

datatype exn = Exn jsstring

record 'w host =
  showInformationMessage :: "jsstring \<Rightarrow> 'w \<Rightarrow> exn + 'w"
  appendLine :: "jsstring \<Rightarrow> 'w \<Rightarrow> exn + 'w"
  clear :: "'w \<Rightarrow> exn + 'w"

text \<open>What \<^verbatim>\<open>cp.execFile\<close> passes to its callback: \<^verbatim>\<open>err\<close> is \<^verbatim>\<open>null\<close> or an error whose
  \<^verbatim>\<open>code\<close> is a string (a failure to start the process, as \<^verbatim>\<open>'ENOENT'\<close>), a number (the
  exit status) or absent.\<close>

datatype err_code = Code_string jsstring | Code_number int | Code_absent

record exec_result =
  err :: "err_code option"
  stdout :: jsstring
  stderr :: jsstring

definition is_ENOENT :: "err_code option \<Rightarrow> bool" where
  "is_ENOENT e \<longleftrightarrow> (case e of Some (Code_string c) \<Rightarrow> c = js ''ENOENT'' | _ \<Rightarrow> False)"

datatype 'a settled = Resolved 'a | Rejected exn

text \<open>The loop of lines 38 to 53, with the write of line 52. An exception leaves the loop;
  the state of the editor is then the one before the call that threw.\<close>

fun parse_loop ::
  "'w host \<Rightarrow> jsstring \<Rightarrow> jsstring \<Rightarrow> jsstring \<Rightarrow> jsstring list \<Rightarrow> ICheckResult list \<Rightarrow> 'w
     \<Rightarrow> (exn + ICheckResult list) \<times> 'w" where
  "parse_loop h pcwd cwd severity0 [] ret w = (Inr ret, w)"
| "parse_loop h pcwd cwd severity0 (l # ls) ret w =
     (case parse_line pcwd cwd severity0 ret l of
        (ret', None) \<Rightarrow> parse_loop h pcwd cwd severity0 ls ret' w
      | (ret', Some logged) \<Rightarrow>
          (case appendLine h logged w of
             Inl e \<Rightarrow> (Inl e, w)
           | Inr w' \<Rightarrow> parse_loop h pcwd cwd severity0 ls ret' w'))"

text \<open>\<^verbatim>\<open>runTool\<close> (lines 26 to 61): how the promise it returns settles when \<^verbatim>\<open>execFile\<close>
  calls back with \<open>r\<close>, and the state of the editor after the callback. \<open>pcwd\<close> is the
  working directory of the extension's process, which \<^verbatim>\<open>path.resolve\<close> reads. Everything
  the callback does is inside \<^verbatim>\<open>try\<close>, and \<^verbatim>\<open>catch\<close> rejects with what was thrown.\<close>

definition runTool ::
  "'w host \<Rightarrow> jsstring \<Rightarrow> jsstring \<Rightarrow> jsstring list \<Rightarrow> jsstring \<Rightarrow> jsstring \<Rightarrow> bool \<Rightarrow> jsstring
     \<Rightarrow> exec_result \<Rightarrow> 'w \<Rightarrow> ICheckResult list settled \<times> 'w" where
  "runTool h pcwd cmd args cwd severity0 useStdErr notFoundError r w =
     (if is_ENOENT (err r) then
        (case showInformationMessage h notFoundError w of
           Inl e \<Rightarrow> (Rejected e, w)
         | Inr w1 \<Rightarrow> (Resolved [], w1))
      else
        (let lines = split_on NL (if useStdErr then stderr r else stdout r) in
         case appendLine h (join [SPACE] (js ''Finished running tool:'' # cmd # args)) w of
           Inl e \<Rightarrow> (Rejected e, w)
         | Inr w1 \<Rightarrow>
             (case parse_loop h pcwd cwd severity0 lines [] w1 of
                (Inl e, w2) \<Rightarrow> (Rejected e, w2)
              | (Inr ret, w2) \<Rightarrow>
                  (case appendLine h [] w2 of
                     Inl e \<Rightarrow> (Rejected e, w2)
                   | Inr w3 \<Rightarrow> (Resolved ret, w3)))))"

section \<open>The check orchestrator\<close>

text \<open>The workspace configuration as \<^verbatim>\<open>check\<close> reads it: the four switches by their
  truthiness; a list of flags, the linter and the build tags are \<open>None\<close> when the key is
  missing.\<close>

record go_config =
  buildOnSave :: bool
  buildFlags :: "jsstring list option"
  buildTags :: "jsstring option"
  lintOnSave :: bool
  linter :: "jsstring option"
  lintFlags :: "jsstring list option"
  vetOnSave :: bool
  vetFlags :: "jsstring list option"
  coverOnSave :: bool

text \<open>What \<^verbatim>\<open>check\<close> takes from outside \<^verbatim>\<open>goCheck.ts\<close>: \<^verbatim>\<open>getGoRuntimePath()\<close> and
  \<^verbatim>\<open>getBinPath\<close> of \<^verbatim>\<open>./goPath\<close>, the path
  \<^verbatim>\<open>path.normalize(path.join(os.tmpdir(), 'go-code-check'))\<close>, the text of
  \<^verbatim>\<open>process.env['GOROOT']\<close> in a string concatenation, \<^verbatim>\<open>path.dirname\<close>, and the working
  directory of the process.\<close>

record node_env =
  goRuntimePath :: jsstring
  getBinPath :: "jsstring \<Rightarrow> jsstring"
  tmppath :: jsstring
  goroot :: jsstring
  path_dirname :: "jsstring \<Rightarrow> jsstring"
  process_cwd :: jsstring

datatype check_kind = Build | Lint | Vet | Cover

text \<open>\<^verbatim>\<open>filename.match(/_test.go$/i)\<close>: the name ends with \<^verbatim>\<open>_test\<close>, any code unit that
  is not a line terminator, and \<^verbatim>\<open>go\<close>, letters in either case.\<close>

definition ci_eq :: "nat \<Rightarrow> nat \<Rightarrow> bool" where
  "ci_eq c lower \<longleftrightarrow> c = lower \<or> c + 32 = lower"

definition is_test_file :: "jsstring \<Rightarrow> bool" where
  "is_test_file filename \<longleftrightarrow>
     (case rev filename of
        o1 # g1 # d1 # t2 # s1 # e1 # t1 # u1 # rest \<Rightarrow>
          u1 = UNDERSCORE \<and> ci_eq t1 116 \<and> ci_eq e1 101 \<and> ci_eq s1 115 \<and> ci_eq t2 116 \<and>
          is_dot d1 \<and> ci_eq g1 103 \<and> ci_eq o1 111
      | _ \<Rightarrow> False)"

definition or_empty :: "jsstring list option \<Rightarrow> jsstring list" where
  "or_empty v = (case v of None \<Rightarrow> [] | Some fs \<Rightarrow> fs)"

definition the_linter :: "go_config \<Rightarrow> jsstring" where
  "the_linter goConfig =
     (case linter goConfig of None \<Rightarrow> js ''golint'' | Some l \<Rightarrow> if l = [] then js ''golint'' else l)"

definition build_args :: "node_env \<Rightarrow> jsstring \<Rightarrow> go_config \<Rightarrow> jsstring list" where
  "build_args env filename goConfig =
     (let buildFlags1 = or_empty (buildFlags goConfig);
          buildTags1 = [DQUOTE] @ (case buildTags goConfig of None \<Rightarrow> js ''undefined'' | Some t \<Rightarrow> t) @ [DQUOTE]
      in if is_test_file filename then
           [js ''test'', js ''-copybinary'', js ''-o'', tmppath env, js ''-c'', js ''-tags'', buildTags1] @
             buildFlags1 @ [js ''.'']
         else [js ''build'', js ''-o'', tmppath env, js ''-tags'', buildTags1] @ buildFlags1 @ [js ''.''])"

text \<open>Lines 88 to 91. \<^verbatim>\<open>args.push(filename)\<close> changes the array of the configuration when
  \<^verbatim>\<open>lintFlags\<close> is set; one call of \<^verbatim>\<open>check\<close> does not read that array again.\<close>

definition lint_args :: "jsstring \<Rightarrow> go_config \<Rightarrow> jsstring list" where
  "lint_args filename goConfig =
     (if the_linter goConfig = js ''golint'' then or_empty (lintFlags goConfig) @ [filename]
      else or_empty (lintFlags goConfig))"

text \<open>The checks \<^verbatim>\<open>check\<close> starts, in the order it pushes their promises on
  \<^verbatim>\<open>runningToolsPromises\<close> (lines 68, 85, 102, 114).\<close>

definition runningTools :: "go_config \<Rightarrow> check_kind list" where
  "runningTools goConfig =
     (if buildOnSave goConfig then [Build] else []) @
     (if lintOnSave goConfig then [Lint] else []) @
     (if vetOnSave goConfig then [Vet] else []) @
     (if coverOnSave goConfig then [Cover] else [])"

text \<open>Modelled from the spec: \<^verbatim>\<open>getCoverage\<close> of \<^verbatim>\<open>./goCover\<close> is not among the sources.
  The coverage collector "returns already-structured diagnostics", so its promise
  resolves with a list of diagnostics or rejects; it is not given the editor here.

  What the world outside answers to one call of \<^verbatim>\<open>check\<close>: the result of each of the
  three processes, and how the promise of \<^verbatim>\<open>getCoverage(filename)\<close> settles.\<close>

record outcomes =
  build_out :: exec_result
  lint_out :: exec_result
  vet_out :: exec_result
  cover_out :: "ICheckResult list settled"

text \<open>How the promise of one started check settles, on the state of the editor at that
  moment (lines 76 to 83, 92 to 99, 104 to 111, 115).\<close>

definition settle ::
  "'w host \<Rightarrow> node_env \<Rightarrow> jsstring \<Rightarrow> go_config \<Rightarrow> outcomes \<Rightarrow> check_kind \<Rightarrow> 'w
     \<Rightarrow> ICheckResult list settled \<times> 'w" where
  "settle h env filename goConfig outs k w =
     (let cwd = path_dirname env filename in
      case k of
        Build \<Rightarrow>
          runTool h (process_cwd env) (goRuntimePath env) (build_args env filename goConfig) cwd
            (js ''error'') True
            (js ''No '' @ [DQUOTE] @ js ''go'' @ [DQUOTE] @ js '' binary could be found in GOROOT: '' @
               goroot env @ [DQUOTE])
            (build_out outs) w
      | Lint \<Rightarrow>
          runTool h (process_cwd env) (getBinPath env (the_linter goConfig)) (lint_args filename goConfig) cwd
            (js ''warning'') False
            (js ''The '' @ [QUOTE] @ the_linter goConfig @ [QUOTE] @
               js '' command is not available.  Please install it.'')
            (lint_out outs) w
      | Vet \<Rightarrow>
          runTool h (process_cwd env) (goRuntimePath env)
            ([js ''tool'', js ''vet''] @ or_empty (vetFlags goConfig) @ [filename]) cwd
            (js ''warning'') True
            (js ''No '' @ [DQUOTE] @ js ''go'' @ [DQUOTE] @ js '' binary could be found in GOROOT: '' @
               [DQUOTE] @ goroot env @ [DQUOTE])
            (vet_out outs) w
      | Cover \<Rightarrow> (cover_out outs, w))"

text \<open>The processes run concurrently; the callbacks of the started checks run one after
  the other, in the order in which the checks complete. That order is the \<open>schedule\<close>:
  a check is completed by its first occurrence there, an entry for a check that was not
  started means nothing, and a started check that does not occur never completes (there
  is no timeout).\<close>

definition completion_order :: "check_kind list \<Rightarrow> check_kind list \<Rightarrow> check_kind list" where
  "completion_order started schedule = filter (\<lambda>k. k \<in> set started) (rev (remdups (rev schedule)))"

fun run_callbacks ::
  "(check_kind \<Rightarrow> 'w \<Rightarrow> 'r settled \<times> 'w) \<Rightarrow> check_kind list \<Rightarrow> 'w \<Rightarrow> (check_kind \<times> 'r settled) list \<times> 'w" where
  "run_callbacks cb [] w = ([], w)"
| "run_callbacks cb (k # ks) w =
     (case cb k w of (r, w1) \<Rightarrow>
        (case run_callbacks cb ks w1 of (events, w2) \<Rightarrow> ((k, r) # events, w2)))"

text \<open>\<^verbatim>\<open>Promise.all\<close> over the started checks, given how they settled, in the order of time:
  it rejects with the first rejection; otherwise it resolves, once every promise has, with
  their values in the order of the array; otherwise it stays pending.\<close>

datatype 'a completion = Resolves 'a | Rejects exn | Throws exn | Pending

fun first_rejection :: "(check_kind \<times> 'r settled) list \<Rightarrow> exn option" where
  "first_rejection [] = None"
| "first_rejection ((k, Rejected e) # events) = Some e"
| "first_rejection ((k, Resolved v) # events) = first_rejection events"

fun values_of :: "check_kind list \<Rightarrow> (check_kind \<times> 'r settled) list \<Rightarrow> 'r list option" where
  "values_of [] events = Some []"
| "values_of (k # ks) events =
     (case map_of events k of
        Some (Resolved v) \<Rightarrow> (case values_of ks events of None \<Rightarrow> None | Some vs \<Rightarrow> Some (v # vs))
      | _ \<Rightarrow> None)"

definition promise_all :: "check_kind list \<Rightarrow> (check_kind \<times> 'r settled) list \<Rightarrow> 'r list completion" where
  "promise_all started events =
     (case first_rejection events of
        Some e \<Rightarrow> Rejects e
      | None \<Rightarrow> (case values_of started events of None \<Rightarrow> Pending | Some vs \<Rightarrow> Resolves vs))"

text \<open>\<^verbatim>\<open>check\<close> (lines 63 to 118): the promise it returns, or the exception it throws before
  it returns one, and the state of the editor after all callbacks.
  \<^verbatim>\<open>[].concat.apply([], resultSets)\<close> appends the result sets.\<close>

definition check ::
  "'w host \<Rightarrow> node_env \<Rightarrow> jsstring \<Rightarrow> go_config \<Rightarrow> outcomes \<Rightarrow> check_kind list \<Rightarrow> 'w
     \<Rightarrow> ICheckResult list completion \<times> 'w" where
  "check h env filename goConfig outs schedule w =
     (case clear h w of
        Inl e \<Rightarrow> (Throws e, w)
      | Inr w0 \<Rightarrow>
          (case run_callbacks (settle h env filename goConfig outs)
                  (completion_order (runningTools goConfig) schedule) w0 of
             (events, w1) \<Rightarrow>
               (case promise_all (runningTools goConfig) events of
                  Resolves resultSets \<Rightarrow> (Resolves (concat resultSets), w1)
                | Rejects e \<Rightarrow> (Rejects e, w1)
                | Throws e \<Rightarrow> (Throws e, w1)
                | Pending \<Rightarrow> (Pending, w1))))"

text \<open>The stream \<^verbatim>\<open>runTool\<close> reads from a result, and the diagnostics one check contributes
  when its promise resolves: nothing for a tool that was not found, the parsed stream of a
  tool that ran, the collector's list for the coverage check.\<close>

definition tool_diagnostics ::
  "node_env \<Rightarrow> jsstring \<Rightarrow> jsstring \<Rightarrow> bool \<Rightarrow> exec_result \<Rightarrow> ICheckResult list" where
  "tool_diagnostics env filename severity0 useStdErr r =
     (if is_ENOENT (err r) then []
      else parse (process_cwd env) (path_dirname env filename) severity0
             (if useStdErr then stderr r else stdout r))"

definition result_set :: "node_env \<Rightarrow> jsstring \<Rightarrow> outcomes \<Rightarrow> check_kind \<Rightarrow> ICheckResult list" where
  "result_set env filename outs k =
     (case k of
        Build \<Rightarrow> tool_diagnostics env filename (js ''error'') True (build_out outs)
      | Lint \<Rightarrow> tool_diagnostics env filename (js ''warning'') False (lint_out outs)
      | Vet \<Rightarrow> tool_diagnostics env filename (js ''warning'') True (vet_out outs)
      | Cover \<Rightarrow> (case cover_out outs of Resolved v \<Rightarrow> v | Rejected e \<Rightarrow> []))"

text \<open>An editor that records what it is told and never throws.\<close>

record editor =
  notifications :: "jsstring list"
  channel :: "jsstring list"

definition recording_host :: "editor host" where
  "recording_host =
     \<lparr>showInformationMessage = (\<lambda>m w. Inr (w\<lparr>notifications := notifications w @ [m]\<rparr>)),
      appendLine = (\<lambda>t w. Inr (w\<lparr>channel := channel w @ [t]\<rparr>)),
      clear = (\<lambda>w. Inr (w\<lparr>channel := []\<rparr>))\<rparr>"




text \<open>An editor none of whose calls throws.\<close>

definition never_throws :: "'w host \<Rightarrow> bool" where
  "never_throws h \<longleftrightarrow>
     (\<forall>m w. \<exists>w'. showInformationMessage h m w = Inr w') \<and>
     (\<forall>t w. \<exists>w'. appendLine h t w = Inr w') \<and>
     (\<forall>w. \<exists>w'. clear h w = Inr w')"


text \<open>The process result that belongs to a check; the coverage check has none.\<close>

definition exec_out :: "outcomes \<Rightarrow> check_kind \<Rightarrow> exec_result option" where
  "exec_out outs k =
     (case k of
        Build \<Rightarrow> Some (build_out outs)
      | Lint \<Rightarrow> Some (lint_out outs)
      | Vet \<Rightarrow> Some (vet_out outs)
      | Cover \<Rightarrow> None)"

section \<open>Notions used in the statements\<close>


text \<open>The strings an item of the pattern can take.\<close>

fun accepts :: "atom \<Rightarrow> jsstring \<Rightarrow> bool" where
  "accepts (Star p) x \<longleftrightarrow> list_all p x"
| "accepts (Plus p) x \<longleftrightarrow> x \<noteq> [] \<and> list_all p x"
| "accepts (Opt p) x \<longleftrightarrow> length x \<le> 1 \<and> list_all p x"
| "accepts (Lit c) x \<longleftrightarrow> x = [c]"

text \<open>A path component that is a name: not empty, without a slash, and neither \<^verbatim>\<open>.\<close> nor
  \<^verbatim>\<open>..\<close>.\<close>

definition plain_name :: "jsstring \<Rightarrow> bool" where
  "plain_name c \<longleftrightarrow> c \<noteq> [] \<and> SLASH \<notin> set c \<and> c \<noteq> [DOT] \<and> c \<noteq> [DOT, DOT]"

text \<open>A diagnostic without its message: where it points and how severe it is.\<close>

definition without_msg :: "ICheckResult \<Rightarrow> ICheckResult" where
  "without_msg d = d\<lparr>msg := []\<rparr>"

section \<open>A sample run\<close>

text \<open>A file \<^verbatim>\<open>/proj/main.go\<close> checked with all four checks on: the build reports one error
  with a continuation line, the linter is not installed, vet reports one finding without
  a column, and the coverage collector returns one diagnostic.\<close>

definition example_env :: node_env where
  "example_env =
     \<lparr>goRuntimePath = js ''/go/bin/go'',
      getBinPath = (\<lambda>tool. js ''/gopath/bin/'' @ tool),
      tmppath = js ''/tmp/go-code-check'',
      goroot = js ''/go'',
      path_dirname = (\<lambda>f. js ''/proj''),
      process_cwd = js ''/home/dev''\<rparr>"

definition example_config :: go_config where
  "example_config =
     \<lparr>buildOnSave = True, buildFlags = None, buildTags = Some [],
      lintOnSave = True, linter = None, lintFlags = None,
      vetOnSave = True, vetFlags = None,
      coverOnSave = True\<rparr>"

definition example_outcomes :: outcomes where
  "example_outcomes =
     \<lparr>build_out =
        \<lparr>err = Some (Code_number 2), stdout = [],
         stderr = js ''main.go:10:0: undeclared name: foo'' @ [NL, TAB] @ js ''see also bar.go:3'' @ [NL]\<rparr>,
      lint_out = \<lparr>err = Some (Code_string (js ''ENOENT'')), stdout = [], stderr = []\<rparr>,
      vet_out =
        \<lparr>err = Some (Code_number 1), stdout = [],
         stderr = js ''exit status 1'' @ [NL] @ js ''main.go:3: unreachable code'' @ [NL]\<rparr>,
      cover_out =
        Resolved [\<lparr>file' = js ''/proj/main.go'', line = 7, char = 1, msg = js ''not covered'',
                   severity = js ''info''\<rparr>]\<rparr>"

definition example_editor :: editor where
  "example_editor = \<lparr>notifications = [], channel = [js ''stale'']\<rparr>"

section \<open>The regular expression: what it matches\<close>

declare match_items.simps [simp del]

lemma star_splits_greedy:
  "star_splits p s =
     (takeWhile p s, dropWhile p s) #
       map (\<lambda>n. (take n s, drop n s)) (rev [0 ..< length (takeWhile p s)])"
proof -
  have "take (length (takeWhile p s)) s = takeWhile p s"
    by (metis takeWhile_eq_take)
  moreover have "drop (length (takeWhile p s)) s = dropWhile p s"
    by (metis dropWhile_eq_drop)
  ultimately show ?thesis
    by (simp add: star_splits_def)
qed








lemma re_exec_tab: "starts_with_tab l \<Longrightarrow> re_exec l = None"
  by (cases l) (auto simp: match_items.simps starts_with_tab_def re_exec_def line_pattern_def star_splits_greedy is_path_char_def is_word_def is_digit_def)


lemma first_match_SomeD: "first_match k xs = Some y \<Longrightarrow> \<exists>x\<in>set xs. k x = Some y"
  by (induction xs) (auto split: option.splits)

lemma take_takeWhile:
  assumes "n \<le> length (takeWhile p s)"
  shows "take n s = take n (takeWhile p s)"
proof -
  have "take n s = take n (takeWhile p s @ dropWhile p s)" by simp
  also have "\<dots> = take n (takeWhile p s)" using assms by (simp del: takeWhile_dropWhile_id)
  finally show ?thesis .
qed

lemma star_splits_sound:
  assumes "(x, r) \<in> set (star_splits p s)"
  shows "s = x @ r \<and> list_all p x"
proof -
  from assms obtain n where "n < Suc (length (takeWhile p s))" and xr: "x = take n s" "r = drop n s"
    unfolding star_splits_def set_map set_rev set_upt by auto
  then have n: "n \<le> length (takeWhile p s)"
    by simp
  have "set x \<subseteq> set (takeWhile p s)"
    using xr(1) take_takeWhile[OF n] by (metis set_take_subset)
  then have "list_all p x"
    by (auto simp: list_all_iff dest: set_takeWhileD)
  then show ?thesis using xr by simp
qed

lemma splits_sound: "(x, r) \<in> set (splits a s) \<Longrightarrow> s = x @ r \<and> accepts a x"
  by (cases a) (auto dest: star_splits_sound split: list.splits if_splits)

lemma match_group_sound:
  "match_items (Group a # items) s caps = Some y \<Longrightarrow>
     \<exists>x r. s = x @ r \<and> accepts a x \<and> match_items items r (x # caps) = Some y"
  by (auto simp: match_items.simps dest!: first_match_SomeD splits_sound)

lemma match_plain_sound:
  "match_items (Plain a # items) s caps = Some y \<Longrightarrow>
     \<exists>x r. s = x @ r \<and> accepts a x \<and> match_items items r caps = Some y"
  by (auto simp: match_items.simps dest!: first_match_SomeD splits_sound)

lemma match_end_sound: "match_items [] s caps = Some y \<Longrightarrow> s = [] \<and> y = rev caps"
  by (simp add: match_items.simps split: if_splits)

lemma re_exec_sound:
  assumes "re_exec l = Some (f, ls, cs, sv, m)"
  shows "\<exists>c1 c2. l = f @ [COLON] @ ls @ [COLON] @ cs @ c1 @ sv @ c2 @ [SPACE] @ m \<and>
           list_all is_path_char f \<and> ls \<noteq> [] \<and> list_all is_digit ls \<and>
           length cs \<le> 1 \<and> list_all is_digit cs \<and> list_all is_colon c1 \<and>
           list_all is_word sv \<and> list_all is_colon c2 \<and> list_all is_dot m"
proof -
  let ?y = "Some [f, ls, cs, sv, m]"
  let ?p10 = "[Group (Star is_dot)]"
  let ?p9 = "Plain (Lit SPACE) # ?p10"
  let ?p8 = "Plain (Star is_colon) # ?p9"
  let ?p7 = "Group (Star is_word) # ?p8"
  let ?p6 = "Plain (Star is_colon) # ?p7"
  let ?p5 = "Group (Opt is_digit) # ?p6"
  let ?p4 = "Plain (Lit COLON) # ?p5"
  let ?p3 = "Group (Plus is_digit) # ?p4"
  let ?p2 = "Plain (Lit COLON) # ?p3"
  from assms have "match_items line_pattern l [] = ?y"
    by (auto simp: re_exec_def split: option.splits list.splits)
  then have "match_items (Group (Star is_path_char) # ?p2) l [] = ?y"
    by (simp add: line_pattern_def)
  then obtain x1 r1 where 1: "l = x1 @ r1" "accepts (Star is_path_char) x1"
      and "match_items ?p2 r1 [x1] = ?y"
    by (blast dest: match_group_sound)
  then obtain x2 r2 where 2: "r1 = x2 @ r2" "accepts (Lit COLON) x2"
      and "match_items ?p3 r2 [x1] = ?y"
    by (blast dest: match_plain_sound)
  then obtain x3 r3 where 3: "r2 = x3 @ r3" "accepts (Plus is_digit) x3"
      and "match_items ?p4 r3 [x3, x1] = ?y"
    by (blast dest: match_group_sound)
  then obtain x4 r4 where 4: "r3 = x4 @ r4" "accepts (Lit COLON) x4"
      and "match_items ?p5 r4 [x3, x1] = ?y"
    by (blast dest: match_plain_sound)
  then obtain x5 r5 where 5: "r4 = x5 @ r5" "accepts (Opt is_digit) x5"
      and "match_items ?p6 r5 [x5, x3, x1] = ?y"
    by (blast dest: match_group_sound)
  then obtain x6 r6 where 6: "r5 = x6 @ r6" "accepts (Star is_colon) x6"
      and "match_items ?p7 r6 [x5, x3, x1] = ?y"
    by (blast dest: match_plain_sound)
  then obtain x7 r7 where 7: "r6 = x7 @ r7" "accepts (Star is_word) x7"
      and "match_items ?p8 r7 [x7, x5, x3, x1] = ?y"
    by (blast dest: match_group_sound)
  then obtain x8 r8 where 8: "r7 = x8 @ r8" "accepts (Star is_colon) x8"
      and "match_items ?p9 r8 [x7, x5, x3, x1] = ?y"
    by (blast dest: match_plain_sound)
  then obtain x9 r9 where 9: "r8 = x9 @ r9" "accepts (Lit SPACE) x9"
      and "match_items ?p10 r9 [x7, x5, x3, x1] = ?y"
    by (blast dest: match_plain_sound)
  then obtain x10 r10 where 10: "r9 = x10 @ r10" "accepts (Star is_dot) x10"
      and "match_items [] r10 [x10, x7, x5, x3, x1] = ?y"
    by (blast dest: match_group_sound)
  then have "r10 = []" "x1 = f" "x3 = ls" "x5 = cs" "x7 = sv" "x10 = m"
    by (auto dest!: match_end_sound)
  with 1 2 3 4 5 6 7 8 9 10 show ?thesis
    by (intro exI[of _ x6] exI[of _ x8]) simp
qed

section \<open>Paths: basename and resolve\<close>


lemma split_on_first: "d \<notin> set x \<Longrightarrow> split_on d (x @ d # rest) = x # split_on d rest"
  by (induction x) (auto split: list.splits)

lemma split_on_terminated:
  "\<forall>c\<in>set comps. d \<notin> set c \<Longrightarrow>
     split_on d (concat (map (\<lambda>c. c @ [d]) comps)) = comps @ [[]]"
  by (induction comps) (simp_all add: split_on_first)

lemma join_terminated:
  "comps \<noteq> [] \<Longrightarrow> join sep comps @ sep = concat (map (\<lambda>c. c @ sep) comps)"
  by (induction sep comps rule: join.induct) simp_all

lemma normalizeArray_plain:
  "\<forall>p\<in>set ps. p = [] \<or> plain_name p \<Longrightarrow>
     normalizeArray ps b res = res @ filter (\<lambda>p. p \<noteq> []) ps"
  by (induction ps arbitrary: res) (auto simp: plain_name_def)

lemma resolve_args_absolute:
  "is_absolute pcwd \<Longrightarrow> snd (resolve_args [b, a, pcwd] ([], False))"
  by (cases pcwd) (auto simp: is_absolute_def)

lemma path_resolve_absolute:
  assumes "is_absolute pcwd"
  shows "is_absolute (path_resolve pcwd a b)"
proof -
  obtain p where "resolve_args [b, a, pcwd] ([], False) = (p, True)"
    using resolve_args_absolute[OF assms, of b a] by (cases "resolve_args [b, a, pcwd] ([], False)") auto
  then show ?thesis
    by (simp add: path_resolve_def is_absolute_def Let_def)
qed

lemma path_basename_no_slash: "SLASH \<notin> set (path_basename p)"
  by (auto simp: path_basename_def dest: set_takeWhileD)

section \<open>The loop over the lines\<close>

lemma parse_line_continuation:
  "starts_with_tab l \<Longrightarrow> ret \<noteq> [] \<Longrightarrow>
     parse_line pcwd cwd sev ret l = (butlast ret @ [(last ret)\<lparr>msg := msg (last ret) @ [NL] @ l\<rparr>], None)"
  by (simp add: parse_line_def)

lemma parse_line_match:
  "re_exec l = Some g \<Longrightarrow>
     parse_line pcwd cwd sev ret l =
       (ret @ [to_diagnostic pcwd cwd sev g], Some (log_text (to_diagnostic pcwd cwd sev g)))"
  using re_exec_tab[of l] by (auto simp: parse_line_def Let_def)

lemma parse_line_discard:
  "re_exec l = None \<Longrightarrow> \<not> (starts_with_tab l \<and> ret \<noteq> []) \<Longrightarrow> parse_line pcwd cwd sev ret l = (ret, None)"
  by (auto simp: parse_line_def)

lemma parse_from_Nil: "parse_from pcwd cwd sev ret [] = ret"
  by (simp add: parse_from_def)

lemma parse_from_Cons:
  "parse_from pcwd cwd sev ret (l # ls) = parse_from pcwd cwd sev (fst (parse_line pcwd cwd sev ret l)) ls"
  by (simp add: parse_from_def)

lemma without_msg_continuation:
  "ret \<noteq> [] \<Longrightarrow> map without_msg (butlast ret @ [(last ret)\<lparr>msg := t\<rparr>]) = map without_msg ret"
  by (cases ret rule: rev_cases) (simp_all add: without_msg_def)

lemma parse_line_skeleton:
  "map without_msg (fst (parse_line pcwd cwd sev ret l)) =
     map without_msg ret @
       (case re_exec l of None \<Rightarrow> [] | Some g \<Rightarrow> [without_msg (to_diagnostic pcwd cwd sev g)])"
proof (cases "starts_with_tab l \<and> ret \<noteq> []")
  case True
  then show ?thesis
    using without_msg_continuation[of ret "msg (last ret) @ [NL] @ l"]
    by (simp add: parse_line_continuation re_exec_tab)
next
  case False
  then show ?thesis
    by (cases "re_exec l") (simp_all add: parse_line_match parse_line_discard)
qed

lemma parse_from_skeleton:
  "map without_msg (parse_from pcwd cwd sev ret ls) =
     map without_msg ret @ map (\<lambda>g. without_msg (to_diagnostic pcwd cwd sev g)) (List.map_filter re_exec ls)"
proof (induction ls arbitrary: ret)
  case Nil
  then show ?case by (simp add: parse_from_Nil map_filter_simps)
next
  case (Cons l ls)
  show ?case
    unfolding parse_from_Cons Cons.IH parse_line_skeleton
    by (cases "re_exec l") (simp_all add: map_filter_simps)
qed

lemma parse_line_invariant:
  assumes "\<forall>d\<in>set ret. P d" and "\<And>d t. P d \<Longrightarrow> P (d\<lparr>msg := t\<rparr>)"
    and "\<And>g. re_exec l = Some g \<Longrightarrow> P (to_diagnostic pcwd cwd sev g)"
  shows "\<forall>d\<in>set (fst (parse_line pcwd cwd sev ret l)). P d"
proof (cases "starts_with_tab l \<and> ret \<noteq> []")
  case True
  then have "last ret \<in> set ret" "set (butlast ret) \<subseteq> set ret"
    by (auto dest: in_set_butlastD)
  then show ?thesis
    using True assms(1,2) by (auto simp: parse_line_continuation)
next
  case False
  then show ?thesis
    using assms(1,3) by (cases "re_exec l") (auto simp: parse_line_match parse_line_discard)
qed

lemma parse_from_invariant:
  assumes "\<forall>d\<in>set ret. P d" and "\<And>d t. P d \<Longrightarrow> P (d\<lparr>msg := t\<rparr>)"
    and "\<And>l g. l \<in> set ls \<Longrightarrow> re_exec l = Some g \<Longrightarrow> P (to_diagnostic pcwd cwd sev g)"
  shows "\<forall>d\<in>set (parse_from pcwd cwd sev ret ls). P d"
  using assms(1,3)
proof (induction ls arbitrary: ret)
  case Nil
  then show ?case by (simp add: parse_from_Nil)
next
  case (Cons l ls)
  have "\<forall>d\<in>set (fst (parse_line pcwd cwd sev ret l)). P d"
  proof (rule parse_line_invariant)
    show "\<forall>d\<in>set ret. P d" by (rule Cons.prems(1))
    show "P (d\<lparr>msg := t\<rparr>)" if "P d" for d t using that by (rule assms(2))
    show "P (to_diagnostic pcwd cwd sev g)" if "re_exec l = Some g" for g
      using that Cons.prems(2)[of l g] by simp
  qed
  moreover have "P (to_diagnostic pcwd cwd sev g)" if "l' \<in> set ls" "re_exec l' = Some g" for l' g
    using that Cons.prems(2)[of l' g] by simp
  ultimately show ?case
    unfolding parse_from_Cons by (rule Cons.IH)
qed

lemma parse_loop_parse_from:
  "parse_loop h pcwd cwd sev ls ret w = (Inr r, w') \<Longrightarrow> r = parse_from pcwd cwd sev ret ls"
proof (induction ls arbitrary: ret w)
  case Nil
  then show ?case by (simp add: parse_from_Nil)
next
  case (Cons l ls)
  then show ?case
    by (auto simp: parse_from_Cons split: prod.splits option.splits sum.splits)
qed

lemma parse_loop_never_throws:
  assumes "\<forall>t w. \<exists>w'. appendLine h t w = Inr w'"
  shows "\<exists>w'. parse_loop h pcwd cwd sev ls ret w = (Inr (parse_from pcwd cwd sev ret ls), w')"
proof (induction ls arbitrary: ret w)
  case Nil
  then show ?case by (simp add: parse_from_Nil)
next
  case (Cons l ls)
  obtain ret' lg where pl: "parse_line pcwd cwd sev ret l = (ret', lg)"
    by (cases "parse_line pcwd cwd sev ret l")
  show ?case
  proof (cases lg)
    case None
    then show ?thesis using pl Cons.IH[of ret' w] by (simp add: parse_from_Cons)
  next
    case (Some t)
    obtain w1 where "appendLine h t w = Inr w1" using assms by blast
    then show ?thesis using pl Some Cons.IH[of ret' w1] by (simp add: parse_from_Cons)
  qed
qed

lemma runTool_not_found:
  "is_ENOENT (err r) \<Longrightarrow> showInformationMessage h notFoundError w = Inr w' \<Longrightarrow>
     runTool h pcwd cmd args cwd sev useStdErr notFoundError r w = (Resolved [], w')"
  by (simp add: runTool_def)

lemma runTool_never_throws:
  assumes "never_throws h"
  shows "\<exists>w'. runTool h pcwd cmd args cwd sev useStdErr notFoundError r w =
           (Resolved (if is_ENOENT (err r) then []
                      else parse pcwd cwd sev (if useStdErr then stderr r else stdout r)), w')"
proof (cases "is_ENOENT (err r)")
  case True
  obtain w' where "showInformationMessage h notFoundError w = Inr w'"
    using assms unfolding never_throws_def by blast
  then show ?thesis using True by (simp add: runTool_not_found)
next
  case False
  have app: "\<forall>t w. \<exists>w'. appendLine h t w = Inr w'"
    using assms unfolding never_throws_def by blast
  let ?s = "if useStdErr then stderr r else stdout r"
  obtain w1 where 1: "appendLine h (join [SPACE] (js ''Finished running tool:'' # cmd # args)) w = Inr w1"
    using app by blast
  obtain w2 where 2: "parse_loop h pcwd cwd sev (split_on NL ?s) [] w1 = (Inr (parse pcwd cwd sev ?s), w2)"
    using parse_loop_never_throws[OF app, of pcwd cwd sev "split_on NL ?s" "[]" w1]
    unfolding parse_def by blast
  obtain w3 where 3: "appendLine h [] w2 = Inr w3"
    using app by blast
  show ?thesis
    using False 1 2 3 by (simp add: runTool_def Let_def)
qed


lemma never_throws_recording_host: "never_throws recording_host"
  by (simp add: never_throws_def recording_host_def)

section \<open>Promises and the orchestrator\<close>

lemma settle_never_throws:
  assumes "never_throws h" and "k = Cover \<longrightarrow> (\<exists>v. cover_out outs = Resolved v)"
  shows "\<exists>w'. settle h env filename goConfig outs k w = (Resolved (result_set env filename outs k), w')"
proof (cases k)
  case Cover
  then show ?thesis using assms(2) by (auto simp: settle_def result_set_def)
qed (use runTool_never_throws[OF assms(1)] in \<open>simp_all add: settle_def result_set_def tool_diagnostics_def\<close>)

lemma run_callbacks_resolved:
  assumes "\<forall>k\<in>set ks. \<forall>w. \<exists>w'. cb k w = (Resolved (f k), w')"
  shows "\<exists>w'. run_callbacks cb ks w = (map (\<lambda>k. (k, Resolved (f k))) ks, w')"
  using assms
proof (induction ks arbitrary: w)
  case Nil
  then show ?case by simp
next
  case (Cons k ks)
  have "\<exists>w'. cb k w = (Resolved (f k), w')"
    using Cons.prems by simp
  then obtain w1 where 1: "cb k w = (Resolved (f k), w1)"
    by blast
  have "\<exists>w'. run_callbacks cb ks w1 = (map (\<lambda>k. (k, Resolved (f k))) ks, w')"
    using Cons.prems by (intro Cons.IH) simp
  then obtain w2 where "run_callbacks cb ks w1 = (map (\<lambda>k. (k, Resolved (f k))) ks, w2)"
    by blast
  then show ?case using 1 by simp
qed

lemma first_rejection_resolved: "first_rejection (map (\<lambda>k. (k, Resolved (f k))) ks) = None"
  by (induction ks) simp_all

lemma map_of_resolved: "k \<in> set ks \<Longrightarrow> map_of (map (\<lambda>k. (k, Resolved (f k))) ks) k = Some (Resolved (f k))"
  by (induction ks) auto

lemma values_of_resolved:
  "set started \<subseteq> set ks \<Longrightarrow> values_of started (map (\<lambda>k. (k, Resolved (f k))) ks) = Some (map f started)"
  by (induction started) (simp_all add: map_of_resolved)

lemma promise_all_resolved:
  "set started \<subseteq> set ks \<Longrightarrow> promise_all started (map (\<lambda>k. (k, Resolved (f k))) ks) = Resolves (map f started)"
  by (simp add: promise_all_def first_rejection_resolved values_of_resolved)


lemma set_completion_order: "set (completion_order started schedule) = set started \<inter> set schedule"
  by (auto simp: completion_order_def)

lemma check_resolves:
  assumes h: "never_throws h"
    and sched: "set (runningTools goConfig) \<subseteq> set schedule"
    and cover: "coverOnSave goConfig \<longrightarrow> (\<exists>v. cover_out outs = Resolved v)"
  shows "\<exists>w'. check h env filename goConfig outs schedule w =
           (Resolves (concat (map (result_set env filename outs) (runningTools goConfig))), w')"
proof -
  let ?started = "runningTools goConfig"
  let ?order = "completion_order ?started schedule"
  obtain w0 where w0: "clear h w = Inr w0"
    using h unfolding never_throws_def by blast
  have set_order: "set ?order = set ?started"
    using sched by (auto simp: set_completion_order)
  have "\<forall>k\<in>set ?order. \<forall>w. \<exists>w'. settle h env filename goConfig outs k w = (Resolved (result_set env filename outs k), w')"
  proof (intro ballI allI)
    fix k w assume "k \<in> set ?order"
    then have "k \<in> set ?started" using set_order by simp
    then have "k = Cover \<longrightarrow> coverOnSave goConfig"
      by (auto simp: runningTools_def split: if_splits)
    then show "\<exists>w'. settle h env filename goConfig outs k w = (Resolved (result_set env filename outs k), w')"
      using cover by (intro settle_never_throws[OF h]) simp
  qed
  from run_callbacks_resolved[OF this, of w0]
  obtain w1 where "run_callbacks (settle h env filename goConfig outs) ?order w0 =
      (map (\<lambda>k. (k, Resolved (result_set env filename outs k))) ?order, w1)"
    by blast
  moreover have "promise_all ?started (map (\<lambda>k. (k, Resolved (result_set env filename outs k))) ?order) =
      Resolves (map (result_set env filename outs) ?started)"
    using set_order by (intro promise_all_resolved) simp
  ultimately show ?thesis
    using w0 by (simp add: check_def)
qed

lemma result_set_not_found:
  "exec_out outs k = Some r \<Longrightarrow> is_ENOENT (err r) \<Longrightarrow> result_set env filename outs k = []"
  by (cases k) (auto simp: exec_out_def result_set_def tool_diagnostics_def)

lemma concat_without:
  "f k = [] \<Longrightarrow> concat (map f ks) = concat (map f (filter (\<lambda>k'. k' \<noteq> k) ks))"
  by (induction ks) auto

section \<open>Further facts about the parser and the runner\<close>

lemma to_number_foldl_zero:
  "list_all is_digit ls \<Longrightarrow>
     foldl (\<lambda>n c. 10 * n + (c - 48)) a ls = 0 \<longleftrightarrow> a = 0 \<and> (\<forall>c\<in>set ls. c = 48)"
  by (induction ls arbitrary: a) (auto simp: is_digit_def)

lemma to_number_zero: "list_all is_digit ls \<Longrightarrow> to_number ls = 0 \<longleftrightarrow> (\<forall>c\<in>set ls. c = 48)"
  by (simp add: to_number_def to_number_foldl_zero)



lemma to_diagnostic_fields:
  "to_diagnostic pcwd cwd sev (f, ls, cs, sv, m) =
     \<lparr>file' = path_resolve pcwd cwd (path_basename f), line = to_number ls,
      char = (if to_number cs = 0 then 1 else to_number cs), msg = m,
      severity = (if sv = [] then sev else sv)\<rparr>"
  by (simp add: to_diagnostic_def Let_def)

lemma runTool_Resolved:
  assumes "runTool h pcwd cmd args cwd sev useStdErr notFoundError r w = (Resolved ds, w')"
  shows "ds = (if is_ENOENT (err r) then []
               else parse pcwd cwd sev (if useStdErr then stderr r else stdout r))"
proof (cases "is_ENOENT (err r)")
  case True
  then show ?thesis
    using assms by (auto simp: runTool_def split: sum.splits)
next
  case False
  then show ?thesis
    using assms
    by (auto simp: runTool_def Let_def parse_def split: sum.splits prod.splits
        dest: parse_loop_parse_from)
qed

lemma to_diagnostic_char: "1 \<le> char (to_diagnostic pcwd cwd sev g)"
  by (cases g) (simp add: to_diagnostic_fields)

lemma to_diagnostic_file:
  "is_absolute pcwd \<Longrightarrow> is_absolute (file' (to_diagnostic pcwd cwd sev g))"
  by (cases g) (simp add: to_diagnostic_fields path_resolve_absolute)

lemma to_diagnostic_line:
  assumes "re_exec l = Some (f, ls, cs, sv, m)"
  shows "line (to_diagnostic pcwd cwd sev (f, ls, cs, sv, m)) = to_number ls \<and>
         (1 \<le> to_number ls \<longleftrightarrow> (\<exists>c\<in>set ls. c \<noteq> 48))"
proof -
  have "list_all is_digit ls"
    using re_exec_sound[OF assms] by blast
  then have "to_number ls = 0 \<longleftrightarrow> (\<forall>c\<in>set ls. c = 48)"
    by (rule to_number_zero)
  then have "1 \<le> to_number ls \<longleftrightarrow> (\<exists>c\<in>set ls. c \<noteq> 48)"
    by (cases "to_number ls") auto
  then show ?thesis
    by (simp add: to_diagnostic_fields)
qed

lemma parse_skeleton:
  "map without_msg (parse pcwd cwd sev raw) =
     map (\<lambda>g. without_msg (to_diagnostic pcwd cwd sev g)) (List.map_filter re_exec (split_on NL raw))"
  by (simp add: parse_def parse_from_skeleton)

section \<open>Base names, exact numbers, switches and the causes of a rejection\<close>

lemma normalizeArray_append:
  "normalizeArray (ps @ qs) b res = normalizeArray qs b (normalizeArray ps b res)"
  by (induction ps arbitrary: res b) simp_all

lemma resolved_components:
  assumes comps: "\<forall>c\<in>set comps. plain_name c" and b: "SLASH \<notin> set b"
  shows "normalizeArray (split_on SLASH ((SLASH # join [SLASH] comps) @ [SLASH] @ b @ [SLASH])) False [] =
           normalizeArray [b] False comps"
proof (cases "comps = []")
  case True
  have "split_on SLASH ((SLASH # join [SLASH] comps) @ [SLASH] @ b @ [SLASH]) = [[], [], b, []]"
    using True b by (simp add: split_on_first)
  then show ?thesis
    using True by simp
next
  case False
  let ?s = "(SLASH # join [SLASH] comps) @ [SLASH] @ b @ [SLASH]"
  have free: "\<forall>c\<in>set (comps @ [b]). SLASH \<notin> set c"
    using comps b by (auto simp: plain_name_def)
  have "?s = SLASH # (join [SLASH] comps @ [SLASH]) @ b @ [SLASH]"
    by simp
  also have "\<dots> = SLASH # concat (map (\<lambda>c. c @ [SLASH]) (comps @ [b]))"
    unfolding join_terminated[OF False] by simp
  finally have "split_on SLASH ?s = split_on SLASH (SLASH # concat (map (\<lambda>c. c @ [SLASH]) (comps @ [b])))"
    by (simp only:)
  also have "\<dots> = [] # split_on SLASH (concat (map (\<lambda>c. c @ [SLASH]) (comps @ [b])))"
    by simp
  also have "\<dots> = [] # (comps @ [b, []])"
    by (simp only: split_on_terminated[OF free]) simp
  finally have "normalizeArray (split_on SLASH ?s) False [] = normalizeArray ([] # (comps @ [b, []])) False []"
    by (simp only:)
  also have "\<dots> = normalizeArray [b, []] False (normalizeArray comps False [])"
    by (simp add: normalizeArray_append)
  also have "normalizeArray comps False [] = [] @ filter (\<lambda>p. p \<noteq> []) comps"
    using comps by (intro normalizeArray_plain) auto
  also have "[] @ filter (\<lambda>p. p \<noteq> []) comps = comps"
    using comps by (simp only: filter_id_conv append_Nil) (auto simp: plain_name_def)
  also have "normalizeArray [b, []] False comps = normalizeArray [b] False comps"
    using normalizeArray_append[of "[b]" "[[]]" False comps] by simp
  finally show ?thesis .
qed

lemma path_resolve_components:
  assumes comps: "\<forall>c\<in>set comps. plain_name c" and b: "SLASH \<notin> set b"
  shows "path_resolve pcwd (SLASH # join [SLASH] comps) b =
           SLASH # join [SLASH]
             (if b = [] \<or> b = [DOT] then comps
              else if b = [DOT, DOT] then butlast comps
              else comps @ [b])"
proof -
  let ?cwd = "SLASH # join [SLASH] comps"
  have last: "comps \<noteq> [] \<Longrightarrow> last comps \<noteq> [DOT, DOT]"
    using comps by (auto simp: plain_name_def dest: last_in_set)
  have norm: "normalizeArray [b] False comps =
      (if b = [] \<or> b = [DOT] then comps else if b = [DOT, DOT] then butlast comps else comps @ [b])"
    using last by (cases "comps = []") auto
  show ?thesis
  proof (cases "b = []")
    case True
    have args: "resolve_args [b, ?cwd, pcwd] ([], False) = (?cwd @ [SLASH], True)"
      using True by simp
    have "normalizeArray (split_on SLASH (?cwd @ [SLASH])) False [] = comps"
    proof (cases "comps = []")
      case True
      then show ?thesis by simp
    next
      case False
      have free: "\<forall>c\<in>set comps. SLASH \<notin> set c"
        using comps by (auto simp: plain_name_def)
      have "?cwd @ [SLASH] = SLASH # concat (map (\<lambda>c. c @ [SLASH]) comps)"
        using join_terminated[OF False, of "[SLASH]"] by simp
      then have "split_on SLASH (?cwd @ [SLASH]) = [] # split_on SLASH (concat (map (\<lambda>c. c @ [SLASH]) comps))"
        by simp
      also have "\<dots> = [] # comps @ [[]]"
        by (simp only: split_on_terminated[OF free])
      finally have "normalizeArray (split_on SLASH (?cwd @ [SLASH])) False [] =
          normalizeArray ([] # comps @ [[]]) False []"
        by (simp only:)
      also have "\<dots> = [] @ filter (\<lambda>p. p \<noteq> []) ([] # comps @ [[]])"
        using comps by (intro normalizeArray_plain) auto
      also have "\<dots> = filter (\<lambda>p. p \<noteq> []) comps"
        by simp
      also have "\<dots> = comps"
        using comps by (simp only: filter_id_conv) (auto simp: plain_name_def)
      finally show ?thesis .
    qed
    then show ?thesis
      unfolding path_resolve_def args using True by simp
  next
    case False
    then have "hd b \<noteq> SLASH"
      using b by (cases b) auto
    then have args: "resolve_args [b, ?cwd, pcwd] ([], False) = (?cwd @ [SLASH] @ b @ [SLASH], True)"
      using False by simp
    show ?thesis
      unfolding path_resolve_def args
      using resolved_components[OF comps b] norm by simp
  qed
qed

lemma path_basename_first:
  assumes "SLASH \<notin> set name" and "set tail \<subseteq> {SLASH}"
  shows "path_basename (name @ tail) = name"
proof -
  have "dropWhile (\<lambda>c. c = SLASH) (rev tail @ rev name) = dropWhile (\<lambda>c. c = SLASH) (rev name)"
    using assms(2) by (intro dropWhile_append2) auto
  also have "\<dots> = rev name"
    using assms(1) by (cases "rev name") auto
  finally have "dropWhile (\<lambda>c. c = SLASH) (rev (name @ tail)) = rev name"
    by simp
  moreover have "takeWhile (\<lambda>c. c \<noteq> SLASH) (rev name) = rev name"
    using assms(1) by (simp only: takeWhile_eq_all_conv) auto
  ultimately show ?thesis
    by (simp only: path_basename_def rev_rev_ident)
qed

lemma path_basename_last:
  assumes "SLASH \<notin> set name" and "name \<noteq> []" and "set tail \<subseteq> {SLASH}"
  shows "path_basename (dir @ [SLASH] @ name @ tail) = name"
proof -
  have "dropWhile (\<lambda>c. c = SLASH) (rev tail @ rev name @ SLASH # rev dir) =
      dropWhile (\<lambda>c. c = SLASH) (rev name @ SLASH # rev dir)"
    using assms(3) by (intro dropWhile_append2) auto
  moreover have "rev name \<noteq> []" "hd (rev name) \<noteq> SLASH"
    using assms(1,2) by (auto simp: hd_rev) (metis last_in_set)
  then have "dropWhile (\<lambda>c. c = SLASH) (rev name @ SLASH # rev dir) = rev name @ SLASH # rev dir"
    by (cases "rev name") auto
  ultimately have "dropWhile (\<lambda>c. c = SLASH) (rev (dir @ [SLASH] @ name @ tail)) = rev name @ SLASH # rev dir"
    by simp
  moreover have "takeWhile (\<lambda>c. c \<noteq> SLASH) (rev name @ SLASH # rev dir) = rev name"
    using assms(1) by (auto simp: takeWhile_tail takeWhile_eq_all_conv)
  ultimately show ?thesis
    by (simp only: path_basename_def rev_rev_ident)
qed

lemma parse_files:
  "map file' (parse pcwd cwd sev raw) =
     map (\<lambda>g. path_resolve pcwd cwd (path_basename (fst g))) (List.map_filter re_exec (split_on NL raw))"
proof -
  have "map file' (parse pcwd cwd sev raw) = map file' (map without_msg (parse pcwd cwd sev raw))"
    by (simp add: without_msg_def comp_def)
  also have "\<dots> = map (\<lambda>g. file' (to_diagnostic pcwd cwd sev g)) (List.map_filter re_exec (split_on NL raw))"
    unfolding parse_skeleton by (simp add: without_msg_def comp_def)
  also have "\<dots> = map (\<lambda>g. path_resolve pcwd cwd (path_basename (fst g))) (List.map_filter re_exec (split_on NL raw))"
    by (intro map_cong refl) (auto simp: to_diagnostic_fields)
  finally show ?thesis .
qed

lemma to_number_foldl_bound:
  "list_all is_digit ls \<Longrightarrow>
     foldl (\<lambda>n c. 10 * n + (c - 48)) a ls < (a + 1) * 10 ^ length ls"
proof (induction ls arbitrary: a)
  case Nil
  then show ?case by simp
next
  case (Cons c ls)
  from Cons.prems have digit: "is_digit c" and rest: "list_all is_digit ls"
    by simp_all
  from digit have c: "c - 48 \<le> 9"
    by (auto simp: is_digit_def)
  have "foldl (\<lambda>n c. 10 * n + (c - 48)) (10 * a + (c - 48)) ls
          < (10 * a + (c - 48) + 1) * 10 ^ length ls"
    using Cons.IH[OF rest] .
  also have "\<dots> \<le> (10 * (a + 1)) * 10 ^ length ls"
    using c by (intro mult_right_mono) simp_all
  finally show ?case
    by (simp add: algebra_simps)
qed

lemma to_number_exact_range:
  assumes "list_all is_digit ls" and "length ls \<le> 15"
  shows "to_number ls < 2 ^ 53"
proof -
  have "to_number ls < 10 ^ length ls"
    using to_number_foldl_bound[OF assms(1), of 0] by (simp add: to_number_def)
  also have "(10::nat) ^ length ls \<le> 10 ^ 15"
    using assms(2) by (intro power_increasing) simp_all
  also have "(10::nat) ^ 15 < 2 ^ 53"
    by simp
  finally show ?thesis .
qed

lemma parse_count:
  "length (parse pcwd cwd sev raw) = length (List.map_filter re_exec (split_on NL raw))"
  using arg_cong[OF parse_skeleton[of pcwd cwd sev raw], of length] by simp

lemma result_set_kinds:
  "result_set env filename outs Build =
     (if is_ENOENT (err (build_out outs)) then []
      else parse (process_cwd env) (path_dirname env filename) (js ''error'') (stderr (build_out outs)))"
  "result_set env filename outs Lint =
     (if is_ENOENT (err (lint_out outs)) then []
      else parse (process_cwd env) (path_dirname env filename) (js ''warning'') (stdout (lint_out outs)))"
  "result_set env filename outs Vet =
     (if is_ENOENT (err (vet_out outs)) then []
      else parse (process_cwd env) (path_dirname env filename) (js ''warning'') (stderr (vet_out outs)))"
  "cover_out outs = Resolved v \<Longrightarrow> result_set env filename outs Cover = v"
  by (simp_all add: result_set_def tool_diagnostics_def)

lemma check_nothing_started:
  assumes "runningTools goConfig = []" and "clear h w = Inr w0"
  shows "check h env filename goConfig outs schedule w = (Resolves [], w0)"
  using assms by (simp add: check_def completion_order_def promise_all_def)

lemma runningTools_Nil:
  "\<not> buildOnSave goConfig \<Longrightarrow> \<not> lintOnSave goConfig \<Longrightarrow> \<not> vetOnSave goConfig \<Longrightarrow>
     \<not> coverOnSave goConfig \<Longrightarrow> runningTools goConfig = []"
  by (simp add: runningTools_def)









section \<open>Evaluation: the sample run and the scenarios of the specification\<close>

text \<open>The definitions a concrete input is evaluated with.\<close>

lemmas class_defs =
  is_digit_def is_word_def is_path_char_def is_colon_def is_line_terminator_def is_dot_def

lemmas matcher_defs =
  re_exec_def line_pattern_def match_items.simps star_splits_def

lemmas parser_defs =
  js_def matcher_defs class_defs parse_def parse_from_def parse_line_def starts_with_tab_def
  to_diagnostic_def to_number_def path_resolve_def path_basename_def Let_def


lemma example_started: "runningTools example_config = [Build, Lint, Vet, Cover]"
  by (simp add: runningTools_def example_config_def)

lemma example_result_sets:
  "result_set example_env (js ''/proj/main.go'') example_outcomes Build =
     [\<lparr>file' = js ''/proj/main.go'', line = 10, char = 1,
       msg = js ''undeclared name: foo'' @ [NL, TAB] @ js ''see also bar.go:3'', severity = js ''error''\<rparr>]"
  "result_set example_env (js ''/proj/main.go'') example_outcomes Lint = []"
  "result_set example_env (js ''/proj/main.go'') example_outcomes Vet =
     [\<lparr>file' = js ''/proj/main.go'', line = 3, char = 1, msg = js ''unreachable code'',
       severity = js ''warning''\<rparr>]"
  "result_set example_env (js ''/proj/main.go'') example_outcomes Cover =
     [\<lparr>file' = js ''/proj/main.go'', line = 7, char = 1, msg = js ''not covered'', severity = js ''info''\<rparr>]"
  by (simp_all add: result_set_def tool_diagnostics_def example_env_def example_outcomes_def
      is_ENOENT_def parser_defs)

section \<open>The claims about the diagnostic parser\<close>

text \<open>
  Claim C10. A line that begins with a tab while no diagnostic has been produced yet is
  dropped without a trace: the continuation rule does not apply (it needs a diagnostic),
  the pattern cannot match (its first item takes word characters, dots and slashes, and
  is followed by a colon), so the list of diagnostics stays empty, nothing is written to
  the output channel, and the loop goes on with the next line.
\<close>

theorem tab_line_without_diagnostic_discarded:
  assumes "starts_with_tab l"
  shows "re_exec l = None \<and>
         parse_line pcwd cwd sev [] l = ([], None) \<and>
         parse_from pcwd cwd sev [] [l] = [] \<and>
         parse_from pcwd cwd sev [] (l # ls) = parse_from pcwd cwd sev [] ls \<and>
         parse_loop h pcwd cwd sev (l # ls) [] w = parse_loop h pcwd cwd sev ls [] w"
proof -
  have none: "re_exec l = None"
    using assms by (rule re_exec_tab)
  then have line: "parse_line pcwd cwd sev [] l = ([], None)"
    by (simp add: parse_line_discard)
  then show ?thesis
    using none by (simp add: parse_from_Cons parse_from_Nil)
qed

text \<open>An indented line that would match the pattern without its tab.\<close>

theorem tab_line_without_diagnostic_discarded_witness:
  "re_exec (TAB # js ''main.go:10:1: indented'') = None \<and>
   parse_line (js ''/home/dev'') (js ''/proj'') (js ''error'') [] (TAB # js ''main.go:10:1: indented'') = ([], None) \<and>
   parse_from (js ''/home/dev'') (js ''/proj'') (js ''error'') [] [TAB # js ''main.go:10:1: indented''] = []"
  using tab_line_without_diagnostic_discarded
    [of "TAB # js ''main.go:10:1: indented''" "js ''/home/dev''" "js ''/proj''" "js ''error''" "[]"
        recording_host example_editor]
  by (simp add: starts_with_tab_def)

text \<open>
  Claim C7. A line that begins with a tab, when at least one diagnostic has been produced,
  is appended, after a line feed, to the message of the last diagnostic; the number of
  diagnostics does not change, nothing is written to the output channel, and the loop
  goes on with the next line. This is stated of the body of the loop, of the parser and
  of the loop with its writes, on the one line and on a line with lines after it; and a
  line that matches (with a line number of at most 15 digits) followed by a tab line gives
  one diagnostic, whose message is the message of the first line, a line feed and the
  whole tab line. The test is made before the pattern is tried: the result does not
  depend on \<open>re_exec l\<close>.
\<close>

theorem tab_line_continues_last_diagnostic:
  assumes "starts_with_tab l" and "ret \<noteq> []"
  shows "parse_line pcwd cwd sev ret l =
           (butlast ret @ [(last ret)\<lparr>msg := msg (last ret) @ [NL] @ l\<rparr>], None) \<and>
         length (fst (parse_line pcwd cwd sev ret l)) = length ret \<and>
         parse_from pcwd cwd sev ret [l] =
           butlast ret @ [(last ret)\<lparr>msg := msg (last ret) @ [NL] @ l\<rparr>] \<and>
         parse_loop h pcwd cwd sev [l] ret w =
           (Inr (butlast ret @ [(last ret)\<lparr>msg := msg (last ret) @ [NL] @ l\<rparr>]), w) \<and>
         parse_from pcwd cwd sev ret (l # ls) =
           parse_from pcwd cwd sev (butlast ret @ [(last ret)\<lparr>msg := msg (last ret) @ [NL] @ l\<rparr>]) ls \<and>
         parse_loop h pcwd cwd sev (l # ls) ret w =
           parse_loop h pcwd cwd sev ls (butlast ret @ [(last ret)\<lparr>msg := msg (last ret) @ [NL] @ l\<rparr>]) w \<and>
         (\<forall>l0 f lineStr cs sv m. re_exec l0 = Some (f, lineStr, cs, sv, m) \<and> length lineStr \<le> 15 \<longrightarrow>
            parse_from pcwd cwd sev [] [l0, l] =
              [\<lparr>file' = path_resolve pcwd cwd (path_basename f), line = to_number lineStr,
                char = (if to_number cs = 0 then 1 else to_number cs), msg = m @ [NL] @ l,
                severity = (if sv = [] then sev else sv)\<rparr>])"
proof -
  have line: "parse_line pcwd cwd sev ret l =
      (butlast ret @ [(last ret)\<lparr>msg := msg (last ret) @ [NL] @ l\<rparr>], None)"
    using assms by (rule parse_line_continuation)
  moreover have "length (butlast ret @ [(last ret)\<lparr>msg := msg (last ret) @ [NL] @ l\<rparr>]) = length ret"
    using assms(2) by (cases ret rule: rev_cases) simp_all
  moreover have "parse_from pcwd cwd sev [] [l0, l] =
              [\<lparr>file' = path_resolve pcwd cwd (path_basename f), line = to_number lineStr,
                char = (if to_number cs = 0 then 1 else to_number cs), msg = m @ [NL] @ l,
                severity = (if sv = [] then sev else sv)\<rparr>]"
    if "re_exec l0 = Some (f, lineStr, cs, sv, m) \<and> length lineStr \<le> 15" for l0 f lineStr cs sv m
    using that assms(1)
    by (simp add: parse_from_Cons parse_from_Nil parse_line_match parse_line_continuation to_diagnostic_fields)
  ultimately show ?thesis
    by (simp add: parse_from_Cons parse_from_Nil)
qed

text \<open>The continuation line of the scenario in the specification: after a diagnostic that
  is there already, in the parser and in the loop, and after the line that produces it.\<close>

theorem tab_line_continues_last_diagnostic_witness:
  "parse_from (js ''/home/dev'') (js ''/proj'') (js ''error'')
     [\<lparr>file' = js ''/proj/main.go'', line = 10, char = 1, msg = js ''undeclared name: foo'',
       severity = js ''error''\<rparr>]
     [TAB # js ''see also bar.go:3''] =
     [\<lparr>file' = js ''/proj/main.go'', line = 10, char = 1,
       msg = js ''undeclared name: foo'' @ [NL, TAB] @ js ''see also bar.go:3'',
       severity = js ''error''\<rparr>] \<and>
   parse_loop recording_host (js ''/home/dev'') (js ''/proj'') (js ''error'')
     [TAB # js ''see also bar.go:3'']
     [\<lparr>file' = js ''/proj/main.go'', line = 10, char = 1, msg = js ''undeclared name: foo'',
       severity = js ''error''\<rparr>] example_editor =
     (Inr [\<lparr>file' = js ''/proj/main.go'', line = 10, char = 1,
            msg = js ''undeclared name: foo'' @ [NL, TAB] @ js ''see also bar.go:3'',
            severity = js ''error''\<rparr>], example_editor) \<and>
   parse_from (js ''/home/dev'') (js ''/proj'') (js ''error'') []
     [js ''main.go:10:0: undeclared name: foo'', TAB # js ''see also bar.go:3''] =
     [\<lparr>file' = js ''/proj/main.go'', line = 10, char = 1,
       msg = js ''undeclared name: foo'' @ [NL, TAB] @ js ''see also bar.go:3'',
       severity = js ''error''\<rparr>]"
proof -
  let ?l = "TAB # js ''see also bar.go:3''"
  let ?first = "js ''main.go:10:0: undeclared name: foo''"
  let ?ret = "[\<lparr>file' = js ''/proj/main.go'', line = 10, char = 1, msg = js ''undeclared name: foo'',
           severity = js ''error''\<rparr>]"
  note inst = tab_line_continues_last_diagnostic
      [of ?l ?ret "js ''/home/dev''" "js ''/proj''" "js ''error''" recording_host example_editor "[]"]
  have tab: "starts_with_tab ?l" and some: "?ret \<noteq> []"
    by (simp_all add: starts_with_tab_def)
  have match: "re_exec ?first = Some (js ''main.go'', js ''10'', js ''0'', [], js ''undeclared name: foo'') \<and>
      length (js ''10'') \<le> 15"
    by (simp add: js_def matcher_defs class_defs)
  have fields: "path_resolve (js ''/home/dev'') (js ''/proj'') (path_basename (js ''main.go'')) = js ''/proj/main.go''"
    "to_number (js ''10'') = 10" "to_number (js ''0'') = 0"
    by (simp_all add: js_def to_number_def path_resolve_def path_basename_def)
  have 1: "parse_from (js ''/home/dev'') (js ''/proj'') (js ''error'') ?ret [?l] =
      butlast ?ret @ [(last ?ret)\<lparr>msg := msg (last ?ret) @ [NL] @ ?l\<rparr>]"
    using inst[OF tab some, THEN conjunct2, THEN conjunct2, THEN conjunct1] .
  have 2: "parse_loop recording_host (js ''/home/dev'') (js ''/proj'') (js ''error'') [?l] ?ret example_editor =
      (Inr (butlast ?ret @ [(last ?ret)\<lparr>msg := msg (last ?ret) @ [NL] @ ?l\<rparr>]), example_editor)"
    using inst[OF tab some, THEN conjunct2, THEN conjunct2, THEN conjunct2, THEN conjunct1] .
  have 3: "parse_from (js ''/home/dev'') (js ''/proj'') (js ''error'') [] [?first, ?l] =
      [\<lparr>file' = path_resolve (js ''/home/dev'') (js ''/proj'') (path_basename (js ''main.go'')),
        line = to_number (js ''10''),
        char = (if to_number (js ''0'') = 0 then 1 else to_number (js ''0'')),
        msg = js ''undeclared name: foo'' @ [NL] @ ?l,
        severity = (if ([]::jsstring) = [] then js ''error'' else [])\<rparr>]"
    using inst[OF tab some, THEN conjunct2, THEN conjunct2, THEN conjunct2, THEN conjunct2,
        THEN conjunct2, THEN conjunct2] match
    by blast
  show ?thesis
    using 1 2 3 fields by simp
qed

text \<open>
  Claim C6. The specification's scenario: the output \<^verbatim>\<open>util.go:5:12:warning: unused variable x\<close>
  parsed with the default severity \<^verbatim>\<open>error\<close> is said to give one diagnostic at line 5,
  column 12, of severity \<^verbatim>\<open>warning\<close>. The code gives none: the group for the column is
  \<^verbatim>\<open>(\d?)\<close>, at most one digit, so after \<^verbatim>\<open>1\<close> the pattern goes on with \<^verbatim>\<open>:*(\w*):*\<close>
  and a space, which \<^verbatim>\<open>2:warning:\<close> followed by a space does not match.
\<close>

theorem inline_severity_scenario_yields_nothing:
  "parse pcwd cwd (js ''error'') (js ''util.go:5:12:warning: unused variable x'' @ [NL]) = []"
proof -
  have no_match: "re_exec (js ''util.go:5:12:warning: unused variable x'') = None"
    by (simp add: js_def matcher_defs class_defs)
  have empty: "re_exec [] = None"
    by (simp add: matcher_defs)
  have "NL \<notin> set (js ''util.go:5:12:warning: unused variable x'')"
    by (simp add: js_def)
  then have "split_on NL (js ''util.go:5:12:warning: unused variable x'' @ [NL]) =
      [js ''util.go:5:12:warning: unused variable x'', []]"
    by (simp add: split_on_first)
  then show ?thesis
    by (simp add: parse_def parse_from_Cons parse_from_Nil parse_line_discard no_match empty)
qed

text \<open>The same line with a column of one digit is parsed as the scenario expects.\<close>

theorem inline_severity_scenario_yields_nothing_witness:
  "parse (js ''/home/dev'') (js ''/proj'') (js ''error'')
     (js ''util.go:5:12:warning: unused variable x'' @ [NL]) = [] \<and>
   parse (js ''/home/dev'') (js ''/proj'') (js ''error'')
     (js ''util.go:5:1:warning: unused variable x'' @ [NL]) =
     [\<lparr>file' = js ''/proj/util.go'', line = 5, char = 1, msg = js ''unused variable x'',
       severity = js ''warning''\<rparr>]"
proof -
  have "parse (js ''/home/dev'') (js ''/proj'') (js ''error'')
     (js ''util.go:5:1:warning: unused variable x'' @ [NL]) =
     [\<lparr>file' = js ''/proj/util.go'', line = 5, char = 1, msg = js ''unused variable x'',
       severity = js ''warning''\<rparr>]"
    by (simp add: parser_defs)
  then show ?thesis
    using inline_severity_scenario_yields_nothing[of "js ''/home/dev''" "js ''/proj''"] by simp
qed




text \<open>
  Claim C8, as amended. Every diagnostic \<^verbatim>\<open>runTool\<close> resolves with has a column of at least
  1 and, the working directory of the process being absolute (as it is on POSIX), an
  absolute file. It comes from a line of the output that matches: its file, column and
  severity are those of lines 47 to 50, and where the tool printed a line number of at
  most 15 digits its line is that number, which is below \<open>2^53\<close> (the double of the
  source holds it exactly) and is at least 1 exactly when the tool printed a digit other
  than \<^verbatim>\<open>0\<close>: the code coerces the line and does not adjust it.
\<close>

theorem runTool_diagnostic_invariants:
  assumes "is_absolute pcwd"
    and "runTool h pcwd cmd args cwd sev useStdErr notFoundError r w = (Resolved ds, w')"
  shows "\<forall>d\<in>set ds.
           1 \<le> char d \<and> is_absolute (file' d) \<and>
           (\<exists>l\<in>set (split_on NL (if useStdErr then stderr r else stdout r)).
              \<exists>f ls cs sv m.
                re_exec l = Some (f, ls, cs, sv, m) \<and>
                file' d = path_resolve pcwd cwd (path_basename f) \<and>
                char d = (if to_number cs = 0 then 1 else to_number cs) \<and>
                severity d = (if sv = [] then sev else sv) \<and>
                (length ls \<le> 15 \<longrightarrow>
                   line d = to_number ls \<and> line d < 2 ^ 53 \<and>
                   (1 \<le> line d \<longleftrightarrow> (\<exists>c\<in>set ls. c \<noteq> 48))))"
proof (cases "is_ENOENT (err r)")
  case True
  then show ?thesis
    using runTool_Resolved[OF assms(2)] by simp
next
  case False
  let ?lines = "split_on NL (if useStdErr then stderr r else stdout r)"
  let ?P = "\<lambda>d. 1 \<le> char d \<and> is_absolute (file' d) \<and>
           (\<exists>l\<in>set ?lines. \<exists>f ls cs sv m.
                re_exec l = Some (f, ls, cs, sv, m) \<and>
                file' d = path_resolve pcwd cwd (path_basename f) \<and>
                char d = (if to_number cs = 0 then 1 else to_number cs) \<and>
                severity d = (if sv = [] then sev else sv) \<and>
                (length ls \<le> 15 \<longrightarrow>
                   line d = to_number ls \<and> line d < 2 ^ 53 \<and>
                   (1 \<le> line d \<longleftrightarrow> (\<exists>c\<in>set ls. c \<noteq> 48))))"
  have ds: "ds = parse_from pcwd cwd sev [] ?lines"
    using runTool_Resolved[OF assms(2)] False by (simp add: parse_def)
  have "\<forall>d\<in>set (parse_from pcwd cwd sev [] ?lines). ?P d"
  proof (rule parse_from_invariant)
    show "\<forall>d\<in>set []. ?P d" by simp
    show "?P (d\<lparr>msg := t\<rparr>)" if "?P d" for d t
      using that by simp
    show "?P (to_diagnostic pcwd cwd sev g)" if l: "l \<in> set ?lines" and g: "re_exec l = Some g" for l g
    proof -
      obtain f ls cs sv m where g': "g = (f, ls, cs, sv, m)"
        by (cases g)
      let ?d = "to_diagnostic pcwd cwd sev g"
      have digits: "list_all is_digit ls"
        using re_exec_sound[of l f ls cs sv m] g g' by blast
      have fields: "file' ?d = path_resolve pcwd cwd (path_basename f)"
        "char ?d = (if to_number cs = 0 then 1 else to_number cs)"
        "severity ?d = (if sv = [] then sev else sv)"
        "line ?d = to_number ls"
        by (simp_all add: g' to_diagnostic_fields)
      have "1 \<le> to_number ls \<longleftrightarrow> (\<exists>c\<in>set ls. c \<noteq> 48)"
        using to_diagnostic_line[of l f ls cs sv m pcwd cwd sev] g g' by simp
      moreover have "length ls \<le> 15 \<longrightarrow> to_number ls < 2 ^ 53"
        using to_number_exact_range[OF digits] by blast
      ultimately have "length ls \<le> 15 \<longrightarrow>
                   line ?d = to_number ls \<and> line ?d < 2 ^ 53 \<and>
                   (1 \<le> line ?d \<longleftrightarrow> (\<exists>c\<in>set ls. c \<noteq> 48))"
        using fields(4) by simp
      then show ?thesis
        using l g g' fields(1-3) to_diagnostic_char[of pcwd cwd sev g]
          to_diagnostic_file[OF assms(1), of cwd sev g]
        by blast
    qed
  qed
  then show ?thesis
    using ds by simp
qed

text \<open>
  The build error of the sample run, printed with column 0: the column becomes 1.
\<close>

theorem runTool_diagnostic_invariants_witness:
  "runTool recording_host (js ''/home/dev'') (js ''/go/bin/go'') [js ''build''] (js ''/proj'') (js ''error'') True
     (js ''not found'') (build_out example_outcomes) example_editor =
     (Resolved [\<lparr>file' = js ''/proj/main.go'', line = 10, char = 1,
                 msg = js ''undeclared name: foo'' @ [NL, TAB] @ js ''see also bar.go:3'',
                 severity = js ''error''\<rparr>],
      \<lparr>notifications = [],
       channel = [js ''stale'', js ''Finished running tool: /go/bin/go build'',
                  js ''/proj/main.go:10:1: undeclared name: foo'', []]\<rparr>) \<and>
   re_exec (js ''main.go:10:0: undeclared name: foo'') =
     Some (js ''main.go'', js ''10'', js ''0'', [], js ''undeclared name: foo'') \<and>
   to_number (js ''0'') = 0 \<and> to_number (js ''10'') = 10 \<and>
   is_absolute (js ''/proj/main.go'')"
proof -
  have run: "runTool recording_host (js ''/home/dev'') (js ''/go/bin/go'') [js ''build''] (js ''/proj'') (js ''error'') True
     (js ''not found'') (build_out example_outcomes) example_editor =
     (Resolved [\<lparr>file' = js ''/proj/main.go'', line = 10, char = 1,
                 msg = js ''undeclared name: foo'' @ [NL, TAB] @ js ''see also bar.go:3'',
                 severity = js ''error''\<rparr>],
      \<lparr>notifications = [],
       channel = [js ''stale'', js ''Finished running tool: /go/bin/go build'',
                  js ''/proj/main.go:10:1: undeclared name: foo'', []]\<rparr>)"
    by (simp add: runTool_def example_outcomes_def example_editor_def recording_host_def is_ENOENT_def
        log_text_def show_number.simps parser_defs)
  have match: "re_exec (js ''main.go:10:0: undeclared name: foo'') =
     Some (js ''main.go'', js ''10'', js ''0'', [], js ''undeclared name: foo'')"
    by (simp add: js_def matcher_defs class_defs)
  have numbers: "to_number (js ''0'') = 0 \<and> to_number (js ''10'') = 10"
    by (simp add: js_def to_number_def)
  have "is_absolute (js ''/home/dev'')"
    by (simp add: is_absolute_def js_def)
  from runTool_diagnostic_invariants[OF this run]
  have "is_absolute (js ''/proj/main.go'')"
    by simp
  then show ?thesis
    using run match numbers by simp
qed

text \<open>
  The claim as it was stated also demands a line of at least 1. A tool that reports line
  0 gets it back: \<^verbatim>\<open>char\<close> is forced to 1 on line 48, \<^verbatim>\<open>line\<close> is not.
\<close>

theorem line_at_least_one_counterexample:
  "fst (runTool recording_host (js ''/home/dev'') (js ''go'') [js ''build''] (js ''/proj'') (js ''error'') True
          (js ''not found'')
          \<lparr>err = Some (Code_number 2), stdout = [], stderr = js ''main.go:0:1: package clause'' @ [NL]\<rparr>
          example_editor) =
     Resolved [\<lparr>file' = js ''/proj/main.go'', line = 0, char = 1, msg = js ''package clause'',
                severity = js ''error''\<rparr>]"
  by (simp add: runTool_def example_editor_def recording_host_def is_ENOENT_def
        log_text_def show_number.simps parser_defs)

text \<open>
  Claim C9. For a line that matches, the new diagnostic's file is \<^verbatim>\<open>path.resolve\<close> of the
  working directory and the base name of the path the tool printed. The base name holds
  no slash: it is the path itself when that holds no slash, and otherwise the last name
  in the path, slashes at the end apart; whatever directory the tool printed is gone.
  Where the working directory is a normalised absolute path \<^verbatim>\<open>/c1/.../cn\<close>, the file is
  \<^verbatim>\<open>/c1/.../cn/name\<close> for a base name that is a name, the working directory itself for an
  empty base name and for \<^verbatim>\<open>.\<close>, and its parent for \<^verbatim>\<open>..\<close>. The files of a parsed stream
  are those of its matching lines, in their order.
\<close>

theorem file_is_basename_in_working_directory:
  assumes "re_exec l = Some (f, ls, cs, sv, m)"
  shows "\<exists>d. fst (parse_line pcwd cwd sev ret l) = ret @ [d] \<and>
             file' d = path_resolve pcwd cwd (path_basename f) \<and>
             SLASH \<notin> set (path_basename f) \<and>
             (\<forall>name tail. f = name @ tail \<and> SLASH \<notin> set name \<and> set tail \<subseteq> {SLASH} \<longrightarrow>
                path_basename f = name) \<and>
             (\<forall>dir name tail. f = dir @ [SLASH] @ name @ tail \<and> name \<noteq> [] \<and> SLASH \<notin> set name \<and>
                set tail \<subseteq> {SLASH} \<longrightarrow> path_basename f = name) \<and>
             (\<forall>comps. cwd = SLASH # join [SLASH] comps \<and> (\<forall>c\<in>set comps. plain_name c) \<longrightarrow>
                file' d = SLASH # join [SLASH]
                  (if path_basename f = [] \<or> path_basename f = [DOT] then comps
                   else if path_basename f = [DOT, DOT] then butlast comps
                   else comps @ [path_basename f])) \<and>
             map file' (parse pcwd cwd sev raw) =
               map (\<lambda>g. path_resolve pcwd cwd (path_basename (fst g)))
                 (List.map_filter re_exec (split_on NL raw))"
proof -
  let ?d = "to_diagnostic pcwd cwd sev (f, ls, cs, sv, m)"
  have "fst (parse_line pcwd cwd sev ret l) = ret @ [?d]"
    using assms by (simp add: parse_line_match)
  moreover have resolved: "file' ?d = path_resolve pcwd cwd (path_basename f)"
    by (simp add: to_diagnostic_fields)
  moreover have "path_basename f = name"
    if "f = name @ tail \<and> SLASH \<notin> set name \<and> set tail \<subseteq> {SLASH}" for name tail
    using that path_basename_first[of name tail] by simp
  moreover have "path_basename f = name"
    if "f = dir @ [SLASH] @ name @ tail \<and> name \<noteq> [] \<and> SLASH \<notin> set name \<and> set tail \<subseteq> {SLASH}"
    for dir name tail
    using that path_basename_last[of name tail dir] by simp
  moreover have "file' ?d = SLASH # join [SLASH]
                  (if path_basename f = [] \<or> path_basename f = [DOT] then comps
                   else if path_basename f = [DOT, DOT] then butlast comps
                   else comps @ [path_basename f])"
    if "cwd = SLASH # join [SLASH] comps \<and> (\<forall>c\<in>set comps. plain_name c)" for comps
    using that resolved path_resolve_components[of comps "path_basename f" pcwd] path_basename_no_slash[of f]
    by simp
  ultimately show ?thesis
    using path_basename_no_slash[of f] parse_files[of pcwd cwd sev raw] by blast
qed

text \<open>
  A path without a directory, and a path into another directory: both are placed in the
  working directory.
\<close>

theorem file_is_basename_in_working_directory_witness:
  "map file' (fst (parse_line (js ''/home/dev'') (js ''/proj/pkg'') (js ''error'') []
                     (js ''main.go:10:0: undeclared name: foo''))) =
     [js ''/proj/pkg/main.go''] \<and>
   map file' (fst (parse_line (js ''/home/dev'') (js ''/proj/pkg'') (js ''error'') []
                     (js ''../vendor/lib/util.go:5:1: unused variable x''))) =
     [js ''/proj/pkg/util.go''] \<and>
   path_basename (js ''main.go'') = js ''main.go'' \<and>
   path_basename (js ''../vendor/lib/util.go'') = js ''util.go''"
proof -
  let ?cwd = "js ''/proj/pkg''"
  let ?comps = "[js ''proj'', js ''pkg'']"
  have cwd: "?cwd = SLASH # join [SLASH] ?comps \<and> (\<forall>c\<in>set ?comps. plain_name c)"
    by (simp add: js_def plain_name_def)
  have match1: "re_exec (js ''main.go:10:0: undeclared name: foo'') =
      Some (js ''main.go'', js ''10'', js ''0'', [], js ''undeclared name: foo'')"
    by (simp add: js_def matcher_defs class_defs)
  have shape1: "js ''main.go'' = js ''main.go'' @ [] \<and> SLASH \<notin> set (js ''main.go'') \<and> set [] \<subseteq> {SLASH}"
    by (simp add: js_def)
  have name1: "js ''main.go'' \<noteq> [] \<and> js ''main.go'' \<noteq> [DOT] \<and> js ''main.go'' \<noteq> [DOT, DOT]"
    by (simp add: js_def)
  obtain d1 where d1: "fst (parse_line (js ''/home/dev'') ?cwd (js ''error'') []
                     (js ''main.go:10:0: undeclared name: foo'')) = [] @ [d1]"
    and base1: "\<forall>name tail. js ''main.go'' = name @ tail \<and> SLASH \<notin> set name \<and> set tail \<subseteq> {SLASH} \<longrightarrow>
                path_basename (js ''main.go'') = name"
    and file1: "\<forall>comps. ?cwd = SLASH # join [SLASH] comps \<and> (\<forall>c\<in>set comps. plain_name c) \<longrightarrow>
                file' d1 = SLASH # join [SLASH]
                  (if path_basename (js ''main.go'') = [] \<or> path_basename (js ''main.go'') = [DOT] then comps
                   else if path_basename (js ''main.go'') = [DOT, DOT] then butlast comps
                   else comps @ [path_basename (js ''main.go'')])"
    using file_is_basename_in_working_directory[OF match1, of "js ''/home/dev''" ?cwd "js ''error''" "[]" "[]"]
    by blast
  have b1: "path_basename (js ''main.go'') = js ''main.go''"
    using base1 shape1 by blast
  from file1 cwd have "file' d1 = SLASH # join [SLASH]
                  (if path_basename (js ''main.go'') = [] \<or> path_basename (js ''main.go'') = [DOT] then ?comps
                   else if path_basename (js ''main.go'') = [DOT, DOT] then butlast ?comps
                   else ?comps @ [path_basename (js ''main.go'')])"
    by blast
  then have "file' d1 = SLASH # join [SLASH] (?comps @ [js ''main.go''])"
    using b1 name1 by simp
  then have r1: "map file' (fst (parse_line (js ''/home/dev'') ?cwd (js ''error'') []
                     (js ''main.go:10:0: undeclared name: foo''))) = [js ''/proj/pkg/main.go'']"
    using d1 by (simp add: js_def)
  have match2: "re_exec (js ''../vendor/lib/util.go:5:1: unused variable x'') =
      Some (js ''../vendor/lib/util.go'', js ''5'', js ''1'', [], js ''unused variable x'')"
    by (simp add: js_def matcher_defs class_defs)
  have shape2: "js ''../vendor/lib/util.go'' = js ''../vendor/lib'' @ [SLASH] @ js ''util.go'' @ [] \<and>
      js ''util.go'' \<noteq> [] \<and> SLASH \<notin> set (js ''util.go'') \<and> set [] \<subseteq> {SLASH}"
    by (simp add: js_def)
  have name2: "js ''util.go'' \<noteq> [] \<and> js ''util.go'' \<noteq> [DOT] \<and> js ''util.go'' \<noteq> [DOT, DOT]"
    by (simp add: js_def)
  obtain d2 where d2: "fst (parse_line (js ''/home/dev'') ?cwd (js ''error'') []
                     (js ''../vendor/lib/util.go:5:1: unused variable x'')) = [] @ [d2]"
    and base2: "\<forall>dir name tail. js ''../vendor/lib/util.go'' = dir @ [SLASH] @ name @ tail \<and> name \<noteq> [] \<and>
                SLASH \<notin> set name \<and> set tail \<subseteq> {SLASH} \<longrightarrow>
                path_basename (js ''../vendor/lib/util.go'') = name"
    and file2: "\<forall>comps. ?cwd = SLASH # join [SLASH] comps \<and> (\<forall>c\<in>set comps. plain_name c) \<longrightarrow>
                file' d2 = SLASH # join [SLASH]
                  (if path_basename (js ''../vendor/lib/util.go'') = [] \<or>
                      path_basename (js ''../vendor/lib/util.go'') = [DOT] then comps
                   else if path_basename (js ''../vendor/lib/util.go'') = [DOT, DOT] then butlast comps
                   else comps @ [path_basename (js ''../vendor/lib/util.go'')])"
    using file_is_basename_in_working_directory[OF match2, of "js ''/home/dev''" ?cwd "js ''error''" "[]" "[]"]
    by blast
  have b2: "path_basename (js ''../vendor/lib/util.go'') = js ''util.go''"
    using base2 shape2 by blast
  from file2 cwd have "file' d2 = SLASH # join [SLASH]
                  (if path_basename (js ''../vendor/lib/util.go'') = [] \<or>
                      path_basename (js ''../vendor/lib/util.go'') = [DOT] then ?comps
                   else if path_basename (js ''../vendor/lib/util.go'') = [DOT, DOT] then butlast ?comps
                   else ?comps @ [path_basename (js ''../vendor/lib/util.go'')])"
    by blast
  then have "file' d2 = SLASH # join [SLASH] (?comps @ [js ''util.go''])"
    using b2 name2 by simp
  then have r2: "map file' (fst (parse_line (js ''/home/dev'') ?cwd (js ''error'') []
                     (js ''../vendor/lib/util.go:5:1: unused variable x''))) = [js ''/proj/pkg/util.go'']"
    using d2 by (simp add: js_def)
  show ?thesis
    using r1 r2 b1 b2 by simp
qed

section \<open>The claims about the runner and the orchestrator\<close>

text \<open>
  Claim C2. When every started check completes (in whatever order: the schedule is any
  list in which each of them occurs) and none fails (no call into the editor throws, the
  coverage collector resolves), \<^verbatim>\<open>check\<close> resolves with the result sets of the checks that
  are switched on, appended in the order build, lint, vet, coverage; a check that is
  switched off contributes nothing, and with all four off the result is empty and the
  output channel is cleared and nothing else. The result set of a check is what its own
  promise resolves with: the parsed standard error of the build and of vet, the parsed
  standard output of the linter, nothing for a tool that was not found, the list of the
  coverage collector. The length of the whole is the sum of the lengths; a parsed stream
  has one diagnostic for each of its lines that match, and (the line numbers having at
  most 15 digits) the diagnostics stand in the order of those lines.
\<close>

theorem check_concatenates_in_fixed_order:
  assumes "never_throws h"
    and "buildOnSave goConfig \<longrightarrow> Build \<in> set schedule"
    and "lintOnSave goConfig \<longrightarrow> Lint \<in> set schedule"
    and "vetOnSave goConfig \<longrightarrow> Vet \<in> set schedule"
    and "coverOnSave goConfig \<longrightarrow> Cover \<in> set schedule \<and> (\<exists>v. cover_out outs = Resolved v)"
  shows "(\<exists>w'. check h env filename goConfig outs schedule w =
            (Resolves ((if buildOnSave goConfig then result_set env filename outs Build else []) @
                       (if lintOnSave goConfig then result_set env filename outs Lint else []) @
                       (if vetOnSave goConfig then result_set env filename outs Vet else []) @
                       (if coverOnSave goConfig then result_set env filename outs Cover else [])), w')) \<and>
         result_set env filename outs Build =
           (if is_ENOENT (err (build_out outs)) then []
            else parse (process_cwd env) (path_dirname env filename) (js ''error'') (stderr (build_out outs))) \<and>
         result_set env filename outs Lint =
           (if is_ENOENT (err (lint_out outs)) then []
            else parse (process_cwd env) (path_dirname env filename) (js ''warning'') (stdout (lint_out outs))) \<and>
         result_set env filename outs Vet =
           (if is_ENOENT (err (vet_out outs)) then []
            else parse (process_cwd env) (path_dirname env filename) (js ''warning'') (stderr (vet_out outs))) \<and>
         (\<forall>v. cover_out outs = Resolved v \<longrightarrow> result_set env filename outs Cover = v) \<and>
         (\<forall>k w0. (k = Cover \<longrightarrow> (\<exists>v. cover_out outs = Resolved v)) \<longrightarrow>
            (\<exists>w1. settle h env filename goConfig outs k w0 = (Resolved (result_set env filename outs k), w1))) \<and>
         (\<not> buildOnSave goConfig \<and> \<not> lintOnSave goConfig \<and> \<not> vetOnSave goConfig \<and> \<not> coverOnSave goConfig \<longrightarrow>
            (\<forall>w0. clear h w = Inr w0 \<longrightarrow>
               check h env filename goConfig outs schedule w = (Resolves [], w0))) \<and>
         length ((if buildOnSave goConfig then result_set env filename outs Build else []) @
                 (if lintOnSave goConfig then result_set env filename outs Lint else []) @
                 (if vetOnSave goConfig then result_set env filename outs Vet else []) @
                 (if coverOnSave goConfig then result_set env filename outs Cover else [])) =
           (if buildOnSave goConfig then length (result_set env filename outs Build) else 0) +
           (if lintOnSave goConfig then length (result_set env filename outs Lint) else 0) +
           (if vetOnSave goConfig then length (result_set env filename outs Vet) else 0) +
           (if coverOnSave goConfig then length (result_set env filename outs Cover) else 0) \<and>
         (\<forall>pcwd cwd sev raw.
            length (parse pcwd cwd sev raw) = length (List.map_filter re_exec (split_on NL raw)) \<and>
            ((\<forall>g\<in>set (List.map_filter re_exec (split_on NL raw)). length (fst (snd g)) \<le> 15) \<longrightarrow>
               map without_msg (parse pcwd cwd sev raw) =
                 map (\<lambda>g. without_msg (to_diagnostic pcwd cwd sev g))
                   (List.map_filter re_exec (split_on NL raw))))"
proof (intro conjI)
  have sched: "set (runningTools goConfig) \<subseteq> set schedule"
    using assms(2-5) by (auto simp: runningTools_def)
  have cover: "coverOnSave goConfig \<longrightarrow> (\<exists>v. cover_out outs = Resolved v)"
    using assms(5) by blast
  have "\<exists>w'. check h env filename goConfig outs schedule w =
           (Resolves (concat (map (result_set env filename outs) (runningTools goConfig))), w')"
    using assms(1) sched cover by (rule check_resolves)
  moreover have "concat (map (result_set env filename outs) (runningTools goConfig)) =
      (if buildOnSave goConfig then result_set env filename outs Build else []) @
      (if lintOnSave goConfig then result_set env filename outs Lint else []) @
      (if vetOnSave goConfig then result_set env filename outs Vet else []) @
      (if coverOnSave goConfig then result_set env filename outs Cover else [])"
    by (simp add: runningTools_def)
  ultimately show "\<exists>w'. check h env filename goConfig outs schedule w =
            (Resolves ((if buildOnSave goConfig then result_set env filename outs Build else []) @
                       (if lintOnSave goConfig then result_set env filename outs Lint else []) @
                       (if vetOnSave goConfig then result_set env filename outs Vet else []) @
                       (if coverOnSave goConfig then result_set env filename outs Cover else [])), w')"
    by simp
  show "result_set env filename outs Build =
           (if is_ENOENT (err (build_out outs)) then []
            else parse (process_cwd env) (path_dirname env filename) (js ''error'') (stderr (build_out outs)))"
    by (rule result_set_kinds)
  show "result_set env filename outs Lint =
           (if is_ENOENT (err (lint_out outs)) then []
            else parse (process_cwd env) (path_dirname env filename) (js ''warning'') (stdout (lint_out outs)))"
    by (rule result_set_kinds)
  show "result_set env filename outs Vet =
           (if is_ENOENT (err (vet_out outs)) then []
            else parse (process_cwd env) (path_dirname env filename) (js ''warning'') (stderr (vet_out outs)))"
    by (rule result_set_kinds)
  show "\<forall>v. cover_out outs = Resolved v \<longrightarrow> result_set env filename outs Cover = v"
    by (simp add: result_set_kinds)
  show "\<forall>k w0. (k = Cover \<longrightarrow> (\<exists>v. cover_out outs = Resolved v)) \<longrightarrow>
            (\<exists>w1. settle h env filename goConfig outs k w0 = (Resolved (result_set env filename outs k), w1))"
    using settle_never_throws[OF assms(1)] by blast
  show "\<not> buildOnSave goConfig \<and> \<not> lintOnSave goConfig \<and> \<not> vetOnSave goConfig \<and> \<not> coverOnSave goConfig \<longrightarrow>
            (\<forall>w0. clear h w = Inr w0 \<longrightarrow>
               check h env filename goConfig outs schedule w = (Resolves [], w0))"
    using check_nothing_started[of goConfig h w _ env filename outs schedule] runningTools_Nil[of goConfig]
    by blast
  show "length ((if buildOnSave goConfig then result_set env filename outs Build else []) @
                 (if lintOnSave goConfig then result_set env filename outs Lint else []) @
                 (if vetOnSave goConfig then result_set env filename outs Vet else []) @
                 (if coverOnSave goConfig then result_set env filename outs Cover else [])) =
           (if buildOnSave goConfig then length (result_set env filename outs Build) else 0) +
           (if lintOnSave goConfig then length (result_set env filename outs Lint) else 0) +
           (if vetOnSave goConfig then length (result_set env filename outs Vet) else 0) +
           (if coverOnSave goConfig then length (result_set env filename outs Cover) else 0)"
    by simp
  show "\<forall>pcwd cwd sev raw.
            length (parse pcwd cwd sev raw) = length (List.map_filter re_exec (split_on NL raw)) \<and>
            ((\<forall>g\<in>set (List.map_filter re_exec (split_on NL raw)). length (fst (snd g)) \<le> 15) \<longrightarrow>
               map without_msg (parse pcwd cwd sev raw) =
                 map (\<lambda>g. without_msg (to_diagnostic pcwd cwd sev g))
                   (List.map_filter re_exec (split_on NL raw)))"
    by (simp add: parse_skeleton parse_count)
qed

text \<open>
  The sample run, the checks completing in the reverse of the order in which they were
  started; the same with the build and the linter switched off; with all four off; and
  the one finding in the output of vet.
\<close>

theorem check_concatenates_in_fixed_order_witness:
  "fst (check recording_host example_env (js ''/proj/main.go'') example_config example_outcomes
          [Cover, Vet, Lint, Build] example_editor) =
     Resolves
       [\<lparr>file' = js ''/proj/main.go'', line = 10, char = 1,
         msg = js ''undeclared name: foo'' @ [NL, TAB] @ js ''see also bar.go:3'', severity = js ''error''\<rparr>,
        \<lparr>file' = js ''/proj/main.go'', line = 3, char = 1, msg = js ''unreachable code'',
         severity = js ''warning''\<rparr>,
        \<lparr>file' = js ''/proj/main.go'', line = 7, char = 1, msg = js ''not covered'', severity = js ''info''\<rparr>] \<and>
   fst (check recording_host example_env (js ''/proj/main.go'')
          (example_config\<lparr>buildOnSave := False, lintOnSave := False\<rparr>) example_outcomes
          [Cover, Vet] example_editor) =
     Resolves
       [\<lparr>file' = js ''/proj/main.go'', line = 3, char = 1, msg = js ''unreachable code'',
         severity = js ''warning''\<rparr>,
        \<lparr>file' = js ''/proj/main.go'', line = 7, char = 1, msg = js ''not covered'', severity = js ''info''\<rparr>] \<and>
   check recording_host example_env (js ''/proj/main.go'')
          (example_config\<lparr>buildOnSave := False, lintOnSave := False, vetOnSave := False, coverOnSave := False\<rparr>)
          example_outcomes [] example_editor =
     (Resolves [], \<lparr>notifications = [], channel = []\<rparr>) \<and>
   map without_msg
     (parse (js ''/home/dev'') (js ''/proj'') (js ''warning'') (stderr (vet_out example_outcomes))) =
     [\<lparr>file' = js ''/proj/main.go'', line = 3, char = 1, msg = [], severity = js ''warning''\<rparr>]"
proof -
  let ?two = "example_config\<lparr>buildOnSave := False, lintOnSave := False\<rparr>"
  let ?none = "example_config\<lparr>buildOnSave := False, lintOnSave := False, vetOnSave := False, coverOnSave := False\<rparr>"
  have all_on: "buildOnSave example_config \<longrightarrow> Build \<in> set [Cover, Vet, Lint, Build]"
    "lintOnSave example_config \<longrightarrow> Lint \<in> set [Cover, Vet, Lint, Build]"
    "vetOnSave example_config \<longrightarrow> Vet \<in> set [Cover, Vet, Lint, Build]"
    "coverOnSave example_config \<longrightarrow>
       Cover \<in> set [Cover, Vet, Lint, Build] \<and> (\<exists>v. cover_out example_outcomes = Resolved v)"
    by (simp_all add: example_outcomes_def)
  have two_on: "buildOnSave ?two \<longrightarrow> Build \<in> set [Cover, Vet]"
    "lintOnSave ?two \<longrightarrow> Lint \<in> set [Cover, Vet]"
    "vetOnSave ?two \<longrightarrow> Vet \<in> set [Cover, Vet]"
    "coverOnSave ?two \<longrightarrow> Cover \<in> set [Cover, Vet] \<and> (\<exists>v. cover_out example_outcomes = Resolved v)"
    by (simp_all add: example_outcomes_def)
  have none_on: "buildOnSave ?none \<longrightarrow> Build \<in> set []"
    "lintOnSave ?none \<longrightarrow> Lint \<in> set []"
    "vetOnSave ?none \<longrightarrow> Vet \<in> set []"
    "coverOnSave ?none \<longrightarrow> Cover \<in> set [] \<and> (\<exists>v. cover_out example_outcomes = Resolved v)"
    by simp_all
  have switches: "buildOnSave example_config \<and> lintOnSave example_config \<and> vetOnSave example_config \<and>
      coverOnSave example_config"
    "\<not> buildOnSave ?two \<and> \<not> lintOnSave ?two \<and> vetOnSave ?two \<and> coverOnSave ?two"
    "\<not> buildOnSave ?none \<and> \<not> lintOnSave ?none \<and> \<not> vetOnSave ?none \<and> \<not> coverOnSave ?none"
    by (simp_all add: example_config_def)
  have cleared: "clear recording_host example_editor = Inr \<lparr>notifications = [], channel = []\<rparr>"
    by (simp add: recording_host_def example_editor_def)
  have matches: "List.map_filter re_exec (split_on NL (stderr (vet_out example_outcomes))) =
      [(js ''main.go'', js ''3'', [], [], js ''unreachable code'')]"
    by (simp add: example_outcomes_def List.map_filter_def js_def matcher_defs class_defs)
  have short: "\<forall>g\<in>set (List.map_filter re_exec (split_on NL (stderr (vet_out example_outcomes)))).
      length (fst (snd g)) \<le> 15"
    unfolding matches by (simp add: js_def)
  have finding: "without_msg (to_diagnostic (js ''/home/dev'') (js ''/proj'') (js ''warning'')
        (js ''main.go'', js ''3'', [], [], js ''unreachable code'')) =
      \<lparr>file' = js ''/proj/main.go'', line = 3, char = 1, msg = [], severity = js ''warning''\<rparr>"
    by (simp add: without_msg_def to_diagnostic_def js_def to_number_def path_resolve_def path_basename_def)
  note all_inst = check_concatenates_in_fixed_order[where h = recording_host and goConfig = example_config
        and schedule = "[Cover, Vet, Lint, Build]" and outs = example_outcomes and env = example_env
        and filename = "js ''/proj/main.go''" and w = example_editor, OF never_throws_recording_host all_on]
  note two_inst = check_concatenates_in_fixed_order[where h = recording_host and goConfig = ?two
        and schedule = "[Cover, Vet]" and outs = example_outcomes and env = example_env
        and filename = "js ''/proj/main.go''" and w = example_editor, OF never_throws_recording_host two_on]
  note none_inst = check_concatenates_in_fixed_order[where h = recording_host and goConfig = ?none
        and schedule = "[]" and outs = example_outcomes and env = example_env
        and filename = "js ''/proj/main.go''" and w = example_editor, OF never_throws_recording_host none_on]
  have 1: "fst (check recording_host example_env (js ''/proj/main.go'') example_config example_outcomes
          [Cover, Vet, Lint, Build] example_editor) =
     Resolves (result_set example_env (js ''/proj/main.go'') example_outcomes Build @
               result_set example_env (js ''/proj/main.go'') example_outcomes Lint @
               result_set example_env (js ''/proj/main.go'') example_outcomes Vet @
               result_set example_env (js ''/proj/main.go'') example_outcomes Cover)"
    using all_inst[THEN conjunct1] switches(1) by auto
  have 2: "fst (check recording_host example_env (js ''/proj/main.go'') ?two example_outcomes
          [Cover, Vet] example_editor) =
     Resolves (result_set example_env (js ''/proj/main.go'') example_outcomes Vet @
               result_set example_env (js ''/proj/main.go'') example_outcomes Cover)"
    using two_inst[THEN conjunct1] switches(2) by auto
  have 3: "check recording_host example_env (js ''/proj/main.go'') ?none example_outcomes [] example_editor =
     (Resolves [], \<lparr>notifications = [], channel = []\<rparr>)"
    using none_inst[THEN conjunct2, THEN conjunct2, THEN conjunct2, THEN conjunct2, THEN conjunct2,
        THEN conjunct2, THEN conjunct1] switches(3) cleared
    by blast
  have "map without_msg
          (parse (js ''/home/dev'') (js ''/proj'') (js ''warning'') (stderr (vet_out example_outcomes))) =
        map (\<lambda>g. without_msg (to_diagnostic (js ''/home/dev'') (js ''/proj'') (js ''warning'') g))
          (List.map_filter re_exec (split_on NL (stderr (vet_out example_outcomes))))"
    using all_inst[THEN conjunct2, THEN conjunct2, THEN conjunct2, THEN conjunct2, THEN conjunct2,
        THEN conjunct2, THEN conjunct2, THEN conjunct2] short
    by blast
  then have 4: "map without_msg
          (parse (js ''/home/dev'') (js ''/proj'') (js ''warning'') (stderr (vet_out example_outcomes))) =
        [\<lparr>file' = js ''/proj/main.go'', line = 3, char = 1, msg = [], severity = js ''warning''\<rparr>]"
    unfolding matches using finding by simp
  show ?thesis
    using 1 2 3 4 by (simp add: example_result_sets)
qed

text \<open>
  Claim C3. When the tool is not found (\<^verbatim>\<open>err.code === 'ENOENT'\<close>), \<^verbatim>\<open>runTool\<close> calls the
  notifier once with the not-found message and nothing else, and resolves with no
  diagnostic; the recording editor holds exactly one more notification, that message.
  The check as a whole still resolves, with the result sets of the other checks.
\<close>

theorem missing_tool_degrades:
  assumes "is_ENOENT (err r)"
  shows "(\<forall>w'. showInformationMessage h notFoundError w = Inr w' \<longrightarrow>
            runTool h pcwd cmd args cwd sev useStdErr notFoundError r w = (Resolved [], w')) \<and>
         runTool recording_host pcwd cmd args cwd sev useStdErr notFoundError r ed =
           (Resolved [], ed\<lparr>notifications := notifications ed @ [notFoundError]\<rparr>) \<and>
         (never_throws h \<and> set (runningTools goConfig) \<subseteq> set schedule \<and>
          (coverOnSave goConfig \<longrightarrow> (\<exists>v. cover_out outs = Resolved v)) \<and> exec_out outs k = Some r \<longrightarrow>
            result_set env filename outs k = [] \<and>
            (\<exists>w'. check h env filename goConfig outs schedule w =
               (Resolves (concat (map (result_set env filename outs)
                            (filter (\<lambda>k'. k' \<noteq> k) (runningTools goConfig)))), w')))"
proof (intro conjI allI impI)
  fix w' assume "showInformationMessage h notFoundError w = Inr w'"
  then show "runTool h pcwd cmd args cwd sev useStdErr notFoundError r w = (Resolved [], w')"
    using assms by (simp add: runTool_not_found)
next
  show "runTool recording_host pcwd cmd args cwd sev useStdErr notFoundError r ed =
           (Resolved [], ed\<lparr>notifications := notifications ed @ [notFoundError]\<rparr>)"
    using assms by (simp add: runTool_def recording_host_def)
next
  assume a: "never_throws h \<and> set (runningTools goConfig) \<subseteq> set schedule \<and>
          (coverOnSave goConfig \<longrightarrow> (\<exists>v. cover_out outs = Resolved v)) \<and> exec_out outs k = Some r"
  then show empty: "result_set env filename outs k = []"
    using assms by (simp add: result_set_not_found)
  obtain w' where "check h env filename goConfig outs schedule w =
      (Resolves (concat (map (result_set env filename outs) (runningTools goConfig))), w')"
    using a check_resolves[of h goConfig schedule outs env filename w] by blast
  then show "\<exists>w'. check h env filename goConfig outs schedule w =
               (Resolves (concat (map (result_set env filename outs)
                            (filter (\<lambda>k'. k' \<noteq> k) (runningTools goConfig)))), w')"
    using concat_without[of "result_set env filename outs" k "runningTools goConfig"] empty by simp
qed

text \<open>
  The sample run: the linter is missing, the result holds the build, vet and coverage
  diagnostics, and the editor was notified once.
\<close>

theorem missing_tool_degrades_witness:
  "check recording_host example_env (js ''/proj/main.go'') example_config example_outcomes
     [Lint, Build, Vet, Cover] example_editor =
     (Resolves
       [\<lparr>file' = js ''/proj/main.go'', line = 10, char = 1,
         msg = js ''undeclared name: foo'' @ [NL, TAB] @ js ''see also bar.go:3'', severity = js ''error''\<rparr>,
        \<lparr>file' = js ''/proj/main.go'', line = 3, char = 1, msg = js ''unreachable code'',
         severity = js ''warning''\<rparr>,
        \<lparr>file' = js ''/proj/main.go'', line = 7, char = 1, msg = js ''not covered'', severity = js ''info''\<rparr>],
      \<lparr>notifications = [js ''The '' @ [QUOTE] @ js ''golint'' @ [QUOTE] @ js '' command is not available.  Please install it.''],
       channel =
         [js ''Finished running tool: /go/bin/go build -o /tmp/go-code-check -tags '' @ [DQUOTE, DQUOTE] @ js '' .'',
          js ''/proj/main.go:10:1: undeclared name: foo'',
          [],
          js ''Finished running tool: /go/bin/go tool vet /proj/main.go'',
          js ''/proj/main.go:3:1: unreachable code'',
          []]\<rparr>)"
proof -
  have enoent: "is_ENOENT (err (lint_out example_outcomes))"
    by (simp add: example_outcomes_def is_ENOENT_def)
  have "coverOnSave example_config \<longrightarrow> (\<exists>v. cover_out example_outcomes = Resolved v)"
    by (simp add: example_outcomes_def)
  moreover have "set (runningTools example_config) \<subseteq> set [Lint, Build, Vet, Cover]"
    by (simp add: example_started)
  moreover have "exec_out example_outcomes Lint = Some (lint_out example_outcomes)"
    by (simp add: exec_out_def)
  ultimately have "\<exists>w'. check recording_host example_env (js ''/proj/main.go'') example_config example_outcomes
     [Lint, Build, Vet, Cover] example_editor =
     (Resolves (concat (map (result_set example_env (js ''/proj/main.go'') example_outcomes)
                            (filter (\<lambda>k'. k' \<noteq> Lint) (runningTools example_config)))), w')"
    using missing_tool_degrades[OF enoent, where h = recording_host and goConfig = example_config
        and schedule = "[Lint, Build, Vet, Cover]" and outs = example_outcomes and k = Lint
        and env = example_env and filename = "js ''/proj/main.go''" and w = example_editor]
      never_throws_recording_host
    by blast
  then have "fst (check recording_host example_env (js ''/proj/main.go'') example_config example_outcomes
     [Lint, Build, Vet, Cover] example_editor) =
     Resolves
       [\<lparr>file' = js ''/proj/main.go'', line = 10, char = 1,
         msg = js ''undeclared name: foo'' @ [NL, TAB] @ js ''see also bar.go:3'', severity = js ''error''\<rparr>,
        \<lparr>file' = js ''/proj/main.go'', line = 3, char = 1, msg = js ''unreachable code'',
         severity = js ''warning''\<rparr>,
        \<lparr>file' = js ''/proj/main.go'', line = 7, char = 1, msg = js ''not covered'', severity = js ''info''\<rparr>]"
    by (auto simp: example_started example_result_sets)
  moreover have "snd (check recording_host example_env (js ''/proj/main.go'') example_config example_outcomes
     [Lint, Build, Vet, Cover] example_editor) =
      \<lparr>notifications = [js ''The '' @ [QUOTE] @ js ''golint'' @ [QUOTE] @ js '' command is not available.  Please install it.''],
       channel =
         [js ''Finished running tool: /go/bin/go build -o /tmp/go-code-check -tags '' @ [DQUOTE, DQUOTE] @ js '' .'',
          js ''/proj/main.go:10:1: undeclared name: foo'',
          [],
          js ''Finished running tool: /go/bin/go tool vet /proj/main.go'',
          js ''/proj/main.go:3:1: unreachable code'',
          []]\<rparr>"
    by (simp add: check_def runningTools_def completion_order_def settle_def runTool_def
        example_env_def example_config_def example_outcomes_def example_editor_def recording_host_def
        is_ENOENT_def promise_all_def build_args_def lint_args_def the_linter_def or_empty_def
        is_test_file_def ci_eq_def log_text_def show_number.simps parser_defs)
  ultimately show ?thesis
    by (metis prod.collapse)
qed






end
